theory Spec2Isabelle
  imports Complex_Main
begin

section \<open>Python and numpy values\<close>

text \<open>
  The scripts compute on numpy \<open>float64\<close> arrays. Finite floating-point values are
  modelled by real numbers (rounding and overflow are not modelled); the one special value
  the scripts rely on, \<open>np.nan\<close>, is \<open>None\<close>. Input series are NaN-free, so they
  are \<open>real list\<close>; arrays the scripts fill with \<open>np.nan\<close> are \<open>float64 list\<close>.
\<close>

type_synonym float64 = "real option"

abbreviation nan :: float64 where
  "nan \<equiv> None"

text \<open>
  Exceptions are values. \<open>Raised\<close> stands for any exception thrown by an external
  library call (statsmodels), carrying its message.
\<close>

datatype py_error = IndexError | KeyError | Raised string

subsection \<open>Indexing, slicing and \<^verbatim>\<open>range\<close>\<close>

text \<open>
  An index \<open>i\<close> into a sequence of length \<open>n\<close> is valid for \<open>-n \<le> i < n\<close>; a negative
  index counts from the end, anything else raises \<^verbatim>\<open>IndexError\<close>.
\<close>

definition py_index :: "'a list \<Rightarrow> int \<Rightarrow> py_error + nat" where
  "py_index xs i =
     (let n = int (length xs) in
      if 0 \<le> i \<and> i < n then Inr (nat i)
      else if - n \<le> i \<and> i < 0 then Inr (nat (n + i))
      else Inl IndexError)"

definition py_get :: "'a list \<Rightarrow> int \<Rightarrow> py_error + 'a" where
  "py_get xs i = (case py_index xs i of Inl e \<Rightarrow> Inl e | Inr j \<Rightarrow> Inr (xs ! j))"

definition py_set :: "'a list \<Rightarrow> int \<Rightarrow> 'a \<Rightarrow> py_error + 'a list" where
  "py_set xs i v = (case py_index xs i of Inl e \<Rightarrow> Inl e | Inr j \<Rightarrow> Inr (xs[j := v]))"

text \<open>
  \<^verbatim>\<open>xs[start:stop]\<close>: a negative bound counts from the end, both bounds are clipped to
  \<open>[0, n]\<close>, and the slice is empty when \<open>stop \<le> start\<close>. Slicing never raises.
\<close>

definition py_slice :: "'a list \<Rightarrow> int \<Rightarrow> int \<Rightarrow> 'a list" where
  "py_slice xs start stop =
     (let n = int (length xs);
          lo = (if start < 0 then max (start + n) 0 else min start n);
          hi = (if stop < 0 then max (stop + n) 0 else min stop n)
      in take (nat (hi - lo)) (drop (nat lo) xs))"

definition dict_get :: "('k \<rightharpoonup> 'v) \<Rightarrow> 'k \<Rightarrow> py_error + 'v" where
  "dict_get m k = (case m k of None \<Rightarrow> Inl KeyError | Some v \<Rightarrow> Inr v)"

text \<open>Sequencing of statements that may raise: the first exception ends the computation.\<close>

definition bind_err :: "py_error + 'a \<Rightarrow> ('a \<Rightarrow> py_error + 'b) \<Rightarrow> py_error + 'b" where
  "bind_err r k = (case r of Inl e \<Rightarrow> Inl e | Inr v \<Rightarrow> k v)"

text \<open>
  A statement inside \<^verbatim>\<open>try: ... except Exception: pass\<close>: when it raises, the block is
  left with the arrays as they are at that moment (\<open>st\<close>); otherwise the block goes on.
\<close>

definition attempt :: "py_error + 'a \<Rightarrow> 's \<Rightarrow> ('a \<Rightarrow> 's) \<Rightarrow> 's" where
  "attempt r st k = (case r of Inl e \<Rightarrow> st | Inr v \<Rightarrow> k v)"

text \<open>
  \<^verbatim>\<open>for i in range(start, stop): body\<close> over a loop state; an exception that escapes the
  body ends the loop and the function.
\<close>

function for_range :: "int \<Rightarrow> int \<Rightarrow> (int \<Rightarrow> 's \<Rightarrow> py_error + 's) \<Rightarrow> 's \<Rightarrow> py_error + 's" where
  "for_range i stop body st =
     (if i < stop then
        (case body i st of Inl e \<Rightarrow> Inl e | Inr st' \<Rightarrow> for_range (i + 1) stop body st')
      else Inr st)"
  by pat_completeness auto
termination
  by (relation "measure (\<lambda>(i, stop, body, st). nat (stop - i))") auto

declare for_range.simps [simp del]

subsection \<open>Floating-point operations with NaN\<close>

text \<open>
  Comparisons with NaN are false; arithmetic with NaN gives NaN. Infinities are not
  modelled: a division by zero and the logarithm of a non-positive number give NaN here
  (numpy gives \<open>\<plusminus>inf\<close> or NaN with a warning); the scripts guard every such call.
\<close>

definition f_lt :: "float64 \<Rightarrow> float64 \<Rightarrow> bool" where
  "f_lt a b = (case (a, b) of (Some x, Some y) \<Rightarrow> x < y | _ \<Rightarrow> False)"

definition f_le :: "float64 \<Rightarrow> float64 \<Rightarrow> bool" where
  "f_le a b = (case (a, b) of (Some x, Some y) \<Rightarrow> x \<le> y | _ \<Rightarrow> False)"

definition f_sub :: "float64 \<Rightarrow> float64 \<Rightarrow> float64" where
  "f_sub a b = (case (a, b) of (Some x, Some y) \<Rightarrow> Some (x - y) | _ \<Rightarrow> nan)"

definition f_mul :: "float64 \<Rightarrow> float64 \<Rightarrow> float64" where
  "f_mul a b = (case (a, b) of (Some x, Some y) \<Rightarrow> Some (x * y) | _ \<Rightarrow> nan)"

definition f_div :: "float64 \<Rightarrow> float64 \<Rightarrow> float64" where
  "f_div a b = (case (a, b) of (Some x, Some y) \<Rightarrow> (if y = 0 then nan else Some (x / y)) | _ \<Rightarrow> nan)"

definition np_log :: "float64 \<Rightarrow> float64" where
  "np_log a = (case a of Some x \<Rightarrow> (if 0 < x then Some (ln x) else nan) | None \<Rightarrow> nan)"

text \<open>Python's builtin \<^verbatim>\<open>min(a, b)\<close> returns \<open>a\<close> unless \<open>b < a\<close>.\<close>

definition py_min :: "float64 \<Rightarrow> float64 \<Rightarrow> float64" where
  "py_min a b = (if f_lt b a then b else a)"

subsection \<open>numpy sample moments\<close>

text \<open>
  \<^verbatim>\<open>np.var(a, ddof=1)\<close>: the sum of squared deviations from the mean divided by
  \<open>N - 1\<close>; with fewer than two values the divisor is zero and numpy returns NaN
  (with a warning, not an exception).
\<close>

definition np_var_ddof1 :: "real list \<Rightarrow> float64" where
  "np_var_ddof1 a =
     (let rcount = length a in
      if rcount \<le> 1 then nan
      else
        (let arrmean = sum_list a / real rcount
         in Some (sum_list (map (\<lambda>v. (v - arrmean) * (v - arrmean)) a) / real (rcount - 1))))"

text \<open>
  \<^verbatim>\<open>np.cov(x, y)[0, 1]\<close> with numpy's defaults (\<^verbatim>\<open>bias=False\<close>, so \<open>ddof = 1\<close>): the
  rows are centred, multiplied, and the sum is scaled by \<open>1 / (N - 1)\<close>; NaN with fewer
  than two observations. The scripts call it on two slices of equal length only.
\<close>

definition np_cov01 :: "real list \<Rightarrow> real list \<Rightarrow> float64" where
  "np_cov01 x y =
     (let n = length x in
      if n \<le> 1 then nan
      else
        (let avg_x = sum_list x / real n;
             avg_y = sum_list y / real n;
             fact = real n - 1
         in Some (sum_list (map2 (\<lambda>a b. (a - avg_x) * (b - avg_y)) x y) * (1 / fact))))"

subsection \<open>FFD weights (frac\_diff\_python\_gen/generate\_test\_data.py)\<close>

text \<open>
  \<^verbatim>\<open>compute_ffd_weights\<close>: the loop \<^verbatim>\<open>for k in range(1, max_size)\<close> with its
  \<^verbatim>\<open>break\<close>. The state of the loop is the counter \<open>k\<close>, the running weight \<open>w\<close>
  and the list \<open>weights\<close>.
\<close>

function ffd_loop :: "real \<Rightarrow> real \<Rightarrow> int \<Rightarrow> int \<Rightarrow> real \<Rightarrow> real list \<Rightarrow> real list" where
  "ffd_loop d threshold max_size k w weights =
     (if k < max_size then
        (let w' = - w * (d - real_of_int k + 1) / real_of_int k in
         if \<bar>w'\<bar> < threshold then weights
         else ffd_loop d threshold max_size (k + 1) w' (weights @ [w']))
      else weights)"
  by pat_completeness auto
termination
  by (relation "measure (\<lambda>(d, threshold, max_size, k, w, weights). nat (max_size - k))") auto

declare ffd_loop.simps [simp del]

definition compute_ffd_weights :: "real \<Rightarrow> real \<Rightarrow> int \<Rightarrow> real list" where
  "compute_ffd_weights d threshold max_size = ffd_loop d threshold max_size 1 1 [1]"

text \<open>
  \<^verbatim>\<open>frac_diff_manual\<close>: the inner loop \<^verbatim>\<open>for k in range(window)\<close> accumulates
  \<^verbatim>\<open>weights[k] * series[t - k]\<close>; the outer loop writes \<^verbatim>\<open>result[t]\<close>. The weights are
  computed with the default \<^verbatim>\<open>max_size = 10000\<close>.
\<close>

definition frac_diff_inner :: "real list \<Rightarrow> real list \<Rightarrow> int \<Rightarrow> int \<Rightarrow> real \<Rightarrow> py_error + real" where
  "frac_diff_inner weights series t k sum_val =
     bind_err (py_get weights k) (\<lambda>w.
     bind_err (py_get series (t - k)) (\<lambda>x.
     Inr (sum_val + w * x)))"

definition frac_diff_step :: "real list \<Rightarrow> real list \<Rightarrow> int \<Rightarrow> int \<Rightarrow> float64 list \<Rightarrow> py_error + float64 list" where
  "frac_diff_step weights series window t result =
     bind_err (for_range 0 window (frac_diff_inner weights series t) 0) (\<lambda>sum_val.
     py_set result t (Some sum_val))"

definition frac_diff_manual :: "real list \<Rightarrow> real \<Rightarrow> real \<Rightarrow> py_error + float64 list" where
  "frac_diff_manual series d threshold =
     (let weights = compute_ffd_weights d threshold 10000;
          window = int (length weights);
          n = length series;
          result = replicate n nan
      in for_range (window - 1) (int n) (frac_diff_step weights series window) result)"

subsection \<open>Rolling half-life (cointegration\_python\_gen/generate\_cointegration\_expected.py)\<close>

text \<open>
  The three arrays of \<^verbatim>\<open>compute_half_life_ar1\<close>, which are also the columns
  \<^verbatim>\<open>half_life\<close>, \<^verbatim>\<open>ar1_coef\<close> and \<^verbatim>\<open>is_mean_reverting\<close> of the returned frame.
\<close>

record half_life_frame =
  half_lives :: "float64 list"
  ar1_coefs :: "float64 list"
  is_mean_reverting :: "int list"

text \<open>
  The AR(1) coefficient of one window (the lines from \<^verbatim>\<open>y_t = window_data[1:]\<close> to the
  assignment of \<^verbatim>\<open>phi\<close>).
\<close>

definition ar1_phi :: "real list \<Rightarrow> float64" where
  "ar1_phi window_data =
     (let y_t = drop 1 window_data;
          y_lag = butlast window_data;
          cov = np_cov01 y_t y_lag;
          var_lag = np_var_ddof1 y_lag
      in if f_lt (Some (1 / 10 ^ 10)) var_lag then f_div cov var_lag else Some 0)"

text \<open>One iteration of the loop \<^verbatim>\<open>for i in range(window - 1, n)\<close>.\<close>

definition half_life_step :: "real list \<Rightarrow> int \<Rightarrow> int \<Rightarrow> half_life_frame \<Rightarrow> py_error + half_life_frame" where
  "half_life_step series window i st =
     (let window_data = py_slice series (i - window + 1) (i + 1);
          phi = ar1_phi window_data
      in bind_err (py_set (ar1_coefs st) i phi) (\<lambda>a.
         let st1 = st\<lparr>ar1_coefs := a\<rparr> in
         if f_lt (Some 0) phi \<and> f_lt phi (Some 1) then
           bind_err (py_set (is_mean_reverting st1) i 1) (\<lambda>m.
           bind_err (py_set (half_lives st1) i (f_div (Some (- ln 2)) (np_log phi))) (\<lambda>h.
           bind_err (py_get h i) (\<lambda>v.
           bind_err (py_set h i (py_min v (Some (real_of_int (window * 10))))) (\<lambda>h'.
           Inr (st1\<lparr>is_mean_reverting := m, half_lives := h'\<rparr>)))))
         else
           bind_err (py_set (half_lives st1) i nan) (\<lambda>h.
           Inr (st1\<lparr>half_lives := h\<rparr>))))"

text \<open>The arrays before the loop: \<^verbatim>\<open>np.full(n, np.nan)\<close> and \<^verbatim>\<open>np.zeros(n, dtype=int)\<close>.\<close>

definition half_life_init :: "nat \<Rightarrow> half_life_frame" where
  "half_life_init n =
     \<lparr>half_lives = replicate n nan, ar1_coefs = replicate n nan, is_mean_reverting = replicate n 0\<rparr>"

definition compute_half_life_ar1 :: "real list \<Rightarrow> int \<Rightarrow> py_error + half_life_frame" where
  "compute_half_life_ar1 series window =
     (let n = length series
      in for_range (window - 1) (int n) (half_life_step series window) (half_life_init n))"

subsection \<open>Rolling ADF\<close>

text \<open>
  \<^verbatim>\<open>statsmodels.tsa.stattools.adfuller\<close> is an external library call: it is a parameter of
  the model, a function from the window (and \<^verbatim>\<open>maxlag\<close>, \<^verbatim>\<open>regression\<close>) to an
  exception or to the components of its result that the script reads:
  \<^verbatim>\<open>result[0]\<close>, \<^verbatim>\<open>result[1]\<close> and the dictionary \<^verbatim>\<open>result[4]\<close>.
\<close>

record adf_result =
  adf_statistic :: float64
  adf_pvalue :: float64
  adf_critical :: "string \<rightharpoonup> float64"

type_synonym adfuller_fn = "real list \<Rightarrow> int \<Rightarrow> string \<Rightarrow> py_error + adf_result"

record adf_frame =
  adf_stats :: "float64 list"
  adf_p_values :: "float64 list"
  adf_critical_1pct :: "float64 list"
  adf_critical_5pct :: "float64 list"
  adf_critical_10pct :: "float64 list"
  is_stationary :: "int list"

text \<open>
  One iteration: the slice is taken outside the \<^verbatim>\<open>try\<close> (slicing cannot raise),
  everything else inside it.
\<close>

definition rolling_adf_step :: "adfuller_fn \<Rightarrow> real list \<Rightarrow> int \<Rightarrow> int \<Rightarrow> string \<Rightarrow> int \<Rightarrow> adf_frame \<Rightarrow> adf_frame" where
  "rolling_adf_step adfuller series window maxlag regression i st =
     (let window_data = py_slice series (i - window + 1) (i + 1) in
      attempt (adfuller window_data maxlag regression) st (\<lambda>result.
      attempt (py_set (adf_stats st) i (adf_statistic result)) st (\<lambda>a.
      let st1 = st\<lparr>adf_stats := a\<rparr> in
      attempt (py_set (adf_p_values st1) i (adf_pvalue result)) st1 (\<lambda>a.
      let st2 = st1\<lparr>adf_p_values := a\<rparr> in
      attempt (dict_get (adf_critical result) ''1%'') st2 (\<lambda>c.
      attempt (py_set (adf_critical_1pct st2) i c) st2 (\<lambda>a.
      let st3 = st2\<lparr>adf_critical_1pct := a\<rparr> in
      attempt (dict_get (adf_critical result) ''5%'') st3 (\<lambda>c.
      attempt (py_set (adf_critical_5pct st3) i c) st3 (\<lambda>a.
      let st4 = st3\<lparr>adf_critical_5pct := a\<rparr> in
      attempt (dict_get (adf_critical result) ''10%'') st4 (\<lambda>c.
      attempt (py_set (adf_critical_10pct st4) i c) st4 (\<lambda>a.
      let st5 = st4\<lparr>adf_critical_10pct := a\<rparr> in
      attempt (py_set (is_stationary st5) i (if f_lt (adf_pvalue result) (Some (5 / 100)) then 1 else 0)) st5 (\<lambda>a.
      st5\<lparr>is_stationary := a\<rparr>)))))))))))"

definition adf_init :: "nat \<Rightarrow> adf_frame" where
  "adf_init n =
     \<lparr>adf_stats = replicate n nan, adf_p_values = replicate n nan,
      adf_critical_1pct = replicate n nan, adf_critical_5pct = replicate n nan,
      adf_critical_10pct = replicate n nan, is_stationary = replicate n 0\<rparr>"

definition compute_rolling_adf :: "adfuller_fn \<Rightarrow> real list \<Rightarrow> int \<Rightarrow> int \<Rightarrow> string \<Rightarrow> py_error + adf_frame" where
  "compute_rolling_adf adfuller series window maxlag regression =
     (let n = length series
      in for_range (window - 1) (int n)
           (\<lambda>i st. Inr (rolling_adf_step adfuller series window maxlag regression i st))
           (adf_init n))"

subsection \<open>Rolling Engle-Granger\<close>

text \<open>
  Two external calls. \<open>ols\<close> stands for
  \<^verbatim>\<open>OLS(y_win, add_constant(x_win)).fit().params\<close>: the parameter vector, or an exception.
  \<open>coint\<close> is \<^verbatim>\<open>statsmodels.tsa.stattools.coint(y_win, x_win, trend, maxlag)\<close>, whose
  result is the triple (statistic, p-value, array of critical values).
\<close>

record coint_result =
  coint_t :: float64
  coint_pvalue :: float64
  coint_crit :: "float64 list"

type_synonym ols_fn = "real list \<Rightarrow> real list \<Rightarrow> py_error + float64 list"

type_synonym coint_fn = "real list \<Rightarrow> real list \<Rightarrow> string \<Rightarrow> int \<Rightarrow> py_error + coint_result"

record eg_frame =
  hedge_ratios :: "float64 list"
  intercepts :: "float64 list"
  spreads :: "float64 list"
  eg_adf_stats :: "float64 list"
  eg_p_values :: "float64 list"
  eg_critical_1pct :: "float64 list"
  eg_critical_5pct :: "float64 list"
  eg_critical_10pct :: "float64 list"
  is_cointegrated :: "int list"

definition engle_granger_step :: "ols_fn \<Rightarrow> coint_fn \<Rightarrow> real list \<Rightarrow> real list \<Rightarrow> int \<Rightarrow> int \<Rightarrow> eg_frame \<Rightarrow> eg_frame" where
  "engle_granger_step ols coint y x window i st =
     (let y_win = py_slice y (i - window + 1) (i + 1);
          x_win = py_slice x (i - window + 1) (i + 1) in
      attempt (ols y_win x_win) st (\<lambda>params.
      attempt (py_get params 0) st (\<lambda>alpha.
      attempt (py_get params 1) st (\<lambda>beta.
      attempt (py_set (intercepts st) i alpha) st (\<lambda>a.
      let st1 = st\<lparr>intercepts := a\<rparr> in
      attempt (py_set (hedge_ratios st1) i beta) st1 (\<lambda>a.
      let st2 = st1\<lparr>hedge_ratios := a\<rparr> in
      attempt (py_get y i) st2 (\<lambda>yi.
      attempt (py_get x i) st2 (\<lambda>xi.
      attempt (py_set (spreads st2) i (f_sub (f_sub (Some yi) alpha) (f_mul beta (Some xi)))) st2 (\<lambda>a.
      let st3 = st2\<lparr>spreads := a\<rparr> in
      attempt (coint y_win x_win ''c'' 1) st3 (\<lambda>coint_result.
      attempt (py_set (eg_adf_stats st3) i (coint_t coint_result)) st3 (\<lambda>a.
      let st4 = st3\<lparr>eg_adf_stats := a\<rparr> in
      attempt (py_set (eg_p_values st4) i (coint_pvalue coint_result)) st4 (\<lambda>a.
      let st5 = st4\<lparr>eg_p_values := a\<rparr> in
      attempt (py_get (coint_crit coint_result) 0) st5 (\<lambda>c.
      attempt (py_set (eg_critical_1pct st5) i c) st5 (\<lambda>a.
      let st6 = st5\<lparr>eg_critical_1pct := a\<rparr> in
      attempt (py_get (coint_crit coint_result) 1) st6 (\<lambda>c.
      attempt (py_set (eg_critical_5pct st6) i c) st6 (\<lambda>a.
      let st7 = st6\<lparr>eg_critical_5pct := a\<rparr> in
      attempt (py_get (coint_crit coint_result) 2) st7 (\<lambda>c.
      attempt (py_set (eg_critical_10pct st7) i c) st7 (\<lambda>a.
      let st8 = st7\<lparr>eg_critical_10pct := a\<rparr> in
      attempt (py_set (is_cointegrated st8) i (if f_lt (coint_pvalue coint_result) (Some (5 / 100)) then 1 else 0)) st8 (\<lambda>a.
      st8\<lparr>is_cointegrated := a\<rparr>)))))))))))))))))))"

definition eg_init :: "nat \<Rightarrow> eg_frame" where
  "eg_init n =
     \<lparr>hedge_ratios = replicate n nan, intercepts = replicate n nan,
      spreads = replicate n nan, eg_adf_stats = replicate n nan,
      eg_p_values = replicate n nan, eg_critical_1pct = replicate n nan,
      eg_critical_5pct = replicate n nan, eg_critical_10pct = replicate n nan,
      is_cointegrated = replicate n 0\<rparr>"

definition compute_engle_granger :: "ols_fn \<Rightarrow> coint_fn \<Rightarrow> real list \<Rightarrow> real list \<Rightarrow> int \<Rightarrow> py_error + eg_frame" where
  "compute_engle_granger ols coint y x window =
     (let n = length y
      in for_range (window - 1) (int n)
           (\<lambda>i st. Inr (engle_granger_step ols coint y x window i st)) (eg_init n))"

subsection \<open>Rolling Johansen\<close>

text \<open>
  \<^verbatim>\<open>coint_johansen\<close> is external: a parameter returning an exception or the attributes
  \<^verbatim>\<open>eig\<close>, \<^verbatim>\<open>lr1\<close>, \<^verbatim>\<open>lr2\<close> and \<^verbatim>\<open>cvt\<close> of its result. The data matrix is the list
  of its rows, so \<^verbatim>\<open>data[a:b, :]\<close> is a slice of that list and \<^verbatim>\<open>data.shape[0]\<close> its
  length.
\<close>

record johansen_result =
  eig :: "float64 list"
  lr1 :: "float64 list"
  lr2 :: "float64 list"
  cvt :: "float64 list list"

type_synonym johansen_fn = "real list list \<Rightarrow> int \<Rightarrow> int \<Rightarrow> py_error + johansen_result"

definition py_get2 :: "'a list list \<Rightarrow> int \<Rightarrow> int \<Rightarrow> py_error + 'a" where
  "py_get2 m r c = bind_err (py_get m r) (\<lambda>row. py_get row c)"

record johansen_frame =
  ranks :: "float64 list"
  trace_stat_0 :: "float64 list"
  trace_stat_1 :: "float64 list"
  max_stat_0 :: "float64 list"
  max_stat_1 :: "float64 list"
  eigval_0 :: "float64 list"
  eigval_1 :: "float64 list"

text \<open>The statement \<^verbatim>\<open>ranks[i] = rank\<close>, which ends the \<^verbatim>\<open>try\<close> block.\<close>

definition store_rank :: "int \<Rightarrow> int \<Rightarrow> johansen_frame \<Rightarrow> johansen_frame" where
  "store_rank i rank st =
     attempt (py_set (ranks st) i (Some (real_of_int rank))) st (\<lambda>a. st\<lparr>ranks := a\<rparr>)"

definition johansen_step :: "johansen_fn \<Rightarrow> real list list \<Rightarrow> int \<Rightarrow> int \<Rightarrow> int \<Rightarrow> int \<Rightarrow> johansen_frame \<Rightarrow> johansen_frame" where
  "johansen_step coint_johansen data window det_order k_ar_diff i st =
     (let data_win = py_slice data (i - window + 1) (i + 1) in
      attempt (coint_johansen data_win det_order k_ar_diff) st (\<lambda>result.
      attempt (py_get (eig result) 0) st (\<lambda>v.
      attempt (py_set (eigval_0 st) i v) st (\<lambda>a.
      let st1 = st\<lparr>eigval_0 := a\<rparr> in
      attempt (py_get (eig result) 1) st1 (\<lambda>v.
      attempt (py_set (eigval_1 st1) i v) st1 (\<lambda>a.
      let st2 = st1\<lparr>eigval_1 := a\<rparr> in
      attempt (py_get (lr1 result) 0) st2 (\<lambda>v.
      attempt (py_set (trace_stat_0 st2) i v) st2 (\<lambda>a.
      let st3 = st2\<lparr>trace_stat_0 := a\<rparr> in
      attempt (py_get (lr1 result) 1) st3 (\<lambda>v.
      attempt (py_set (trace_stat_1 st3) i v) st3 (\<lambda>a.
      let st4 = st3\<lparr>trace_stat_1 := a\<rparr> in
      attempt (py_get (lr2 result) 0) st4 (\<lambda>v.
      attempt (py_set (max_stat_0 st4) i v) st4 (\<lambda>a.
      let st5 = st4\<lparr>max_stat_0 := a\<rparr> in
      attempt (py_get (lr2 result) 1) st5 (\<lambda>v.
      attempt (py_set (max_stat_1 st5) i v) st5 (\<lambda>a.
      let st6 = st5\<lparr>max_stat_1 := a\<rparr> in
      attempt (py_get (lr1 result) 0) st6 (\<lambda>t0.
      attempt (py_get2 (cvt result) 0 1) st6 (\<lambda>c0.
      if f_lt c0 t0 then
        attempt (py_get (lr1 result) 1) st6 (\<lambda>t1.
        attempt (py_get2 (cvt result) 1 1) st6 (\<lambda>c1.
        if f_lt c1 t1 then store_rank i 2 st6 else store_rank i 1 st6))
      else store_rank i 0 st6))))))))))))))))"

definition johansen_init :: "nat \<Rightarrow> johansen_frame" where
  "johansen_init n =
     \<lparr>ranks = replicate n nan, trace_stat_0 = replicate n nan,
      trace_stat_1 = replicate n nan, max_stat_0 = replicate n nan,
      max_stat_1 = replicate n nan, eigval_0 = replicate n nan,
      eigval_1 = replicate n nan\<rparr>"

definition compute_johansen :: "johansen_fn \<Rightarrow> real list list \<Rightarrow> int \<Rightarrow> int \<Rightarrow> int \<Rightarrow> py_error + johansen_frame" where
  "compute_johansen coint_johansen data window det_order k_ar_diff =
     (let n = length data
      in for_range (window - 1) (int n)
           (\<lambda>i st. Inr (johansen_step coint_johansen data window det_order k_ar_diff i st))
           (johansen_init n))"

subsection \<open>The two conventions of debug\_comparison.py\<close>

text \<open>
  \<^verbatim>\<open>debug_half_life_ar1\<close> writes the coefficient out in two conventions, for a window of
  at least one lag pair. "Method 2" divides by \<open>N\<close> (population moments); "Method 3"
  divides by \<open>N - 1\<close> and is the formula of the specification (section 4.4):
  \<open>cov = \<Sum> (y_t[i] - mean_y) (y_lag[i] - mean_lag) / (n - 1)\<close>,
  \<open>var_lag = \<Sum> (y_lag[i] - mean_lag)^2 / (n - 1)\<close>,
  \<open>phi = cov / var_lag\<close> if \<open>var_lag > 1e-10\<close>, else \<open>0.0\<close>.
\<close>

definition mean :: "real list \<Rightarrow> real" where
  "mean xs = sum_list xs / real (length xs)"

definition cov_sample :: "real list \<Rightarrow> real list \<Rightarrow> real" where
  "cov_sample y_t y_lag =
     (\<Sum>i<length y_lag. (y_t ! i - mean y_t) * (y_lag ! i - mean y_lag)) / (real (length y_lag) - 1)"

definition var_lag_sample :: "real list \<Rightarrow> real" where
  "var_lag_sample y_lag =
     (\<Sum>i<length y_lag. (y_lag ! i - mean y_lag) ^ 2) / (real (length y_lag) - 1)"

definition phi_sample :: "real list \<Rightarrow> real list \<Rightarrow> real" where
  "phi_sample y_t y_lag =
     (if var_lag_sample y_lag > 1 / 10 ^ 10 then cov_sample y_t y_lag / var_lag_sample y_lag else 0)"

definition phi_pop :: "real list \<Rightarrow> real list \<Rightarrow> real" where
  "phi_pop y_t y_lag =
     (let mean_y = mean y_t;
          mean_y_lag = mean y_lag;
          cov_pop = mean (map2 (*) y_t y_lag) - mean_y * mean_y_lag;
          var_lag_pop = mean (map (\<lambda>v. v ^ 2) y_lag) - mean_y_lag ^ 2
      in if var_lag_pop > 1 / 10 ^ 10 then cov_pop / var_lag_pop else 0)"

text \<open>
  The window of the specification (section 4.1) at index \<open>t\<close>: the slice
  \<open>series[t - window + 1 .. t]\<close>, inclusive, for \<open>t \<ge> window - 1\<close>.
\<close>

definition window_slice :: "'a list \<Rightarrow> nat \<Rightarrow> nat \<Rightarrow> 'a list" where
  "window_slice series window t = take window (drop (t + 1 - window) series)"

subsection \<open>Rows of the result frames\<close>

text \<open>Row \<open>j\<close> of a frame, and the frames whose columns all have length \<open>n\<close>.\<close>

definition half_life_row :: "half_life_frame \<Rightarrow> nat \<Rightarrow> float64 \<times> float64 \<times> int" where
  "half_life_row st j = (half_lives st ! j, ar1_coefs st ! j, is_mean_reverting st ! j)"

definition half_life_ok :: "nat \<Rightarrow> half_life_frame \<Rightarrow> bool" where
  "half_life_ok n st \<longleftrightarrow>
     length (half_lives st) = n \<and> length (ar1_coefs st) = n \<and> length (is_mean_reverting st) = n"

definition adf_row :: "adf_frame \<Rightarrow> nat \<Rightarrow> float64 \<times> float64 \<times> float64 \<times> float64 \<times> float64 \<times> int" where
  "adf_row st j =
     (adf_stats st ! j, adf_p_values st ! j, adf_critical_1pct st ! j, adf_critical_5pct st ! j,
      adf_critical_10pct st ! j, is_stationary st ! j)"

definition adf_ok :: "nat \<Rightarrow> adf_frame \<Rightarrow> bool" where
  "adf_ok n st \<longleftrightarrow>
     length (adf_stats st) = n \<and> length (adf_p_values st) = n \<and>
     length (adf_critical_1pct st) = n \<and> length (adf_critical_5pct st) = n \<and>
     length (adf_critical_10pct st) = n \<and> length (is_stationary st) = n"

definition eg_row :: "eg_frame \<Rightarrow> nat \<Rightarrow>
    float64 \<times> float64 \<times> float64 \<times> float64 \<times> float64 \<times> float64 \<times> float64 \<times> float64 \<times> int" where
  "eg_row st j =
     (hedge_ratios st ! j, intercepts st ! j, spreads st ! j, eg_adf_stats st ! j,
      eg_p_values st ! j, eg_critical_1pct st ! j, eg_critical_5pct st ! j,
      eg_critical_10pct st ! j, is_cointegrated st ! j)"

definition eg_ok :: "nat \<Rightarrow> eg_frame \<Rightarrow> bool" where
  "eg_ok n st \<longleftrightarrow>
     length (hedge_ratios st) = n \<and> length (intercepts st) = n \<and> length (spreads st) = n \<and>
     length (eg_adf_stats st) = n \<and> length (eg_p_values st) = n \<and>
     length (eg_critical_1pct st) = n \<and> length (eg_critical_5pct st) = n \<and>
     length (eg_critical_10pct st) = n \<and> length (is_cointegrated st) = n"

definition johansen_row :: "johansen_frame \<Rightarrow> nat \<Rightarrow>
    float64 \<times> float64 \<times> float64 \<times> float64 \<times> float64 \<times> float64 \<times> float64" where
  "johansen_row st j =
     (ranks st ! j, trace_stat_0 st ! j, trace_stat_1 st ! j, max_stat_0 st ! j,
      max_stat_1 st ! j, eigval_0 st ! j, eigval_1 st ! j)"

definition johansen_ok :: "nat \<Rightarrow> johansen_frame \<Rightarrow> bool" where
  "johansen_ok n st \<longleftrightarrow>
     length (ranks st) = n \<and> length (trace_stat_0 st) = n \<and> length (trace_stat_1 st) = n \<and>
     length (max_stat_0 st) = n \<and> length (max_stat_1 st) = n \<and>
     length (eigval_0 st) = n \<and> length (eigval_1 st) = n"

text \<open>
  What one iteration of \<^verbatim>\<open>compute_half_life_ar1\<close> makes of its row: the \<^verbatim>\<open>else\<close>
  branch does not write the flag, which keeps its old value.
\<close>

definition half_life_of :: "real list \<Rightarrow> int \<Rightarrow> float64 \<times> float64 \<times> int \<Rightarrow> float64 \<times> float64 \<times> int" where
  "half_life_of window_data window old =
     (let phi = ar1_phi window_data in
      if f_lt (Some 0) phi \<and> f_lt phi (Some 1)
      then (py_min (f_div (Some (- ln 2)) (np_log phi)) (Some (real_of_int (window * 10))), phi, 1)
      else (nan, phi, snd (snd old)))"

text \<open>
  The slice \<^verbatim>\<open>series[i - window + 1:i + 1]\<close> that iteration \<open>i = t\<close> of a rolling loop takes.
\<close>

definition window_at :: "'a list \<Rightarrow> int \<Rightarrow> nat \<Rightarrow> 'a list" where
  "window_at series window t = py_slice series (int t - window + 1) (int t + 1)"

subsection \<open>The contract of the Johansen collaborator\<close>

text \<open>
  For \<open>n_vars\<close> series \<^verbatim>\<open>coint_johansen\<close> returns \<open>n_vars\<close> eigenvalues, trace statistics
  and maximum-eigenvalue statistics, and a table of critical values with one row per
  statistic and the three columns 10\%, 5\%, 1\% (specification, sections 4.6 and 6).
\<close>

definition johansen_shape :: "nat \<Rightarrow> johansen_result \<Rightarrow> bool" where
  "johansen_shape n_vars res \<longleftrightarrow>
     length (eig res) = n_vars \<and> length (lr1 res) = n_vars \<and> length (lr2 res) = n_vars \<and>
     length (cvt res) = n_vars \<and> list_all (\<lambda>row. length row = 3) (cvt res)"

subsection \<open>The residual spread of the specification\<close>

text \<open>
  Section 4.5, step 2 speaks of the residual spread series of the regression over the
  window: \<open>y - alpha - beta * x\<close>, pointwise.
\<close>

definition residual_spread :: "real \<Rightarrow> real \<Rightarrow> real list \<Rightarrow> real list \<Rightarrow> real list" where
  "residual_spread alpha beta y_win x_win = map2 (\<lambda>yv xv. yv - alpha - beta * xv) y_win x_win"

subsection \<open>Collaborators used in the examples\<close>

text \<open>
  The theorems hold for every collaborator. The examples run the programs with these:
  least squares in closed form (what the regression computes when the regressor is not
  constant); a cointegration test that raises, as \<^verbatim>\<open>coint\<close> does with \<^verbatim>\<open>maxlag=1\<close> on
  a window too short for its lag regression; a test that reports what it was called with
  (the sums of its two arguments as statistic and p-value); a unit-root test and a
  Johansen procedure that raise on a constant window and return fixed results otherwise.
\<close>

definition ols_closed_form :: ols_fn where
  "ols_closed_form y_win x_win =
     (let n = real (length x_win);
          mx = sum_list x_win / n;
          my = sum_list y_win / n;
          sxx = sum_list (map (\<lambda>xv. (xv - mx) * (xv - mx)) x_win);
          sxy = sum_list (map2 (\<lambda>xv yv. (xv - mx) * (yv - my)) x_win y_win)
      in if length y_win \<noteq> length x_win \<or> sxx = 0 then Inl (Raised ''singular'')
         else Inr [Some (my - sxy / sxx * mx), Some (sxy / sxx)])"

definition coint_raises :: coint_fn where
  "coint_raises y_win x_win trend maxlag = Inl (Raised ''maxlag must be less than nobs/2 - 1 - ntrend'')"

definition coint_echo :: coint_fn where
  "coint_echo y_win x_win trend maxlag =
     Inr \<lparr>coint_t = Some (sum_list y_win), coint_pvalue = Some (sum_list x_win),
          coint_crit = [Some (- 4), Some (- 3), Some (- 2)]\<rparr>"

definition adfuller_stub :: adfuller_fn where
  "adfuller_stub window_data maxlag regression =
     (if list_all (\<lambda>v. v = hd window_data) window_data then Inl (Raised ''constant series'')
      else Inr \<lparr>adf_statistic = Some (- 3), adf_pvalue = Some (3 / 100),
                adf_critical = [''1%'' \<mapsto> Some (- 4), ''5%'' \<mapsto> Some (- 3), ''10%'' \<mapsto> Some (- 2)]\<rparr>)"

definition johansen_fixed :: johansen_fn where
  "johansen_fixed data_win det_order k_ar_diff =
     (if list_all (\<lambda>row. row = hd data_win) data_win then Inl (Raised ''singular matrix'')
      else Inr \<lparr>eig = [Some (1 / 2), Some (1 / 10)], lr1 = [Some 20, Some 2],
                lr2 = [Some 18, Some 2],
                cvt = [[Some 13, Some 15, Some 20], [Some 3, Some 4, Some 7]]\<rparr>)"

section \<open>Basic facts about indexing and loops\<close>

lemma py_index_nonneg: "0 \<le> i \<Longrightarrow> i < int (length xs) \<Longrightarrow> py_index xs i = Inr (nat i)"
  by (simp add: py_index_def)

lemma py_get_nonneg: "0 \<le> i \<Longrightarrow> i < int (length xs) \<Longrightarrow> py_get xs i = Inr (xs ! nat i)"
  by (simp add: py_get_def py_index_nonneg)

lemma py_set_nonneg: "0 \<le> i \<Longrightarrow> i < int (length xs) \<Longrightarrow> py_set xs i v = Inr (xs[nat i := v])"
  by (simp add: py_set_def py_index_nonneg)

lemma py_set_length: "py_set xs i v = Inr ys \<Longrightarrow> length ys = length xs"
  by (auto simp: py_set_def split: sum.splits)

lemma py_slice_window:
  "0 \<le> a \<Longrightarrow> a \<le> b \<Longrightarrow> b \<le> int (length xs) \<Longrightarrow>
   py_slice xs a b = take (nat (b - a)) (drop (nat a) xs)"
  by (simp add: py_slice_def Let_def min_def)

lemma for_range_empty: "stop \<le> i \<Longrightarrow> for_range i stop body st = Inr st"
  by (subst for_range.simps) simp

text \<open>The invariant rule for a loop whose body does not raise while the invariant holds.\<close>

lemma for_range_rule:
  assumes "I i st"
    and "\<And>j s. i \<le> j \<Longrightarrow> j < stop \<Longrightarrow> I j s \<Longrightarrow> \<exists>s'. body j s = Inr s' \<and> I (j + 1) s'"
  shows "\<exists>s'. for_range i stop body st = Inr s' \<and> I (max i stop) s'"
  using assms
proof (induction i stop body st rule: for_range.induct)
  case (1 i stop body st)
  show ?case
  proof (cases "i < stop")
    case False
    then show ?thesis using 1(2) by (subst for_range.simps) (simp add: max_def)
  next
    case True
    obtain s' where s': "body i st = Inr s'" "I (i + 1) s'"
      using 1(3)[of i st] True 1(2) by auto
    have "\<exists>s''. for_range (i + 1) stop body s' = Inr s'' \<and> I (max (i + 1) stop) s''"
    proof (rule 1(1)[OF True s'(1) s'(2)])
      fix j s assume "i + 1 \<le> j" "j < stop" "I j s"
      then show "\<exists>s'. body j s = Inr s' \<and> I (j + 1) s'" using 1(3)[of j s] by simp
    qed
    then show ?thesis using True s' by (subst for_range.simps) (auto simp: max_def)
  qed
qed

section \<open>The weight recurrence\<close>

text \<open>
  The loop of \<^verbatim>\<open>compute_ffd_weights\<close> only appends: started with \<open>k\<close> weights, it
  returns them followed by weights that obey the recurrence and are not below the
  threshold, at most \<open>max_size\<close> in all, and when it returns fewer the next weight of
  the recurrence is below the threshold.
\<close>

lemma ffd_loop_inv:
  assumes "1 \<le> k" "int (length ws) = k" "last ws = w" "ws \<noteq> []"
  shows "\<exists>ys. ffd_loop d threshold max_size k w ws = ws @ ys \<and>
     int (length (ws @ ys)) \<le> max k max_size \<and>
     (\<forall>j. length ws \<le> j \<and> j < length (ws @ ys) \<longrightarrow>
        (ws @ ys) ! j = - ((ws @ ys) ! (j - 1)) * (d - real j + 1) / real j \<and>
        threshold \<le> \<bar>(ws @ ys) ! j\<bar>) \<and>
     (int (length (ws @ ys)) < max_size \<longrightarrow>
        \<bar>- last (ws @ ys) * (d - real (length (ws @ ys)) + 1) / real (length (ws @ ys))\<bar> < threshold)"
  using assms
proof (induction d threshold max_size k w ws rule: ffd_loop.induct)
  case (1 d threshold max_size k w weights)
  define w' where "w' = - w * (d - real_of_int k + 1) / real_of_int k"
  have kn: "real_of_int k = real (length weights)" using 1 by (metis of_int_of_nat_eq)
  show ?case
  proof (cases "k < max_size")
    case False
    then show ?thesis using 1(2-) by (subst ffd_loop.simps) auto
  next
    case True
    show ?thesis
    proof (cases "\<bar>w'\<bar> < threshold")
      case stop: True
      have "ffd_loop d threshold max_size k w weights = weights"
        using True stop by (subst ffd_loop.simps) (simp add: w'_def Let_def)
      moreover have "\<bar>- last weights * (d - real (length weights) + 1) / real (length weights)\<bar> < threshold"
        using stop 1(4) kn by (simp add: w'_def)
      ultimately show ?thesis using 1(2-) True by auto
    next
      case go: False
      have step: "ffd_loop d threshold max_size k w weights =
          ffd_loop d threshold max_size (k + 1) w' (weights @ [w'])"
        using True go by (subst ffd_loop.simps) (simp add: w'_def Let_def)
      have "\<exists>ys. ffd_loop d threshold max_size (k + 1) w' (weights @ [w']) = (weights @ [w']) @ ys \<and>
        int (length ((weights @ [w']) @ ys)) \<le> max (k + 1) max_size \<and>
        (\<forall>j. length (weights @ [w']) \<le> j \<and> j < length ((weights @ [w']) @ ys) \<longrightarrow>
          ((weights @ [w']) @ ys) ! j = - (((weights @ [w']) @ ys) ! (j - 1)) * (d - real j + 1) / real j \<and>
          threshold \<le> \<bar>((weights @ [w']) @ ys) ! j\<bar>) \<and>
        (int (length ((weights @ [w']) @ ys)) < max_size \<longrightarrow>
          \<bar>- last ((weights @ [w']) @ ys) * (d - real (length ((weights @ [w']) @ ys)) + 1)
             / real (length ((weights @ [w']) @ ys))\<bar> < threshold)"
        using 1(1)[OF True w'_def go] 1(2-) by simp
      then obtain ys where ys: "ffd_loop d threshold max_size (k + 1) w' (weights @ [w']) = (weights @ [w']) @ ys"
        and len: "int (length ((weights @ [w']) @ ys)) \<le> max (k + 1) max_size"
        and rec: "\<forall>j. length (weights @ [w']) \<le> j \<and> j < length ((weights @ [w']) @ ys) \<longrightarrow>
          ((weights @ [w']) @ ys) ! j = - (((weights @ [w']) @ ys) ! (j - 1)) * (d - real j + 1) / real j \<and>
          threshold \<le> \<bar>((weights @ [w']) @ ys) ! j\<bar>"
        and stop: "int (length ((weights @ [w']) @ ys)) < max_size \<longrightarrow>
          \<bar>- last ((weights @ [w']) @ ys) * (d - real (length ((weights @ [w']) @ ys)) + 1)
             / real (length ((weights @ [w']) @ ys))\<bar> < threshold"
        by blast
      have at_k: "(weights @ w' # ys) ! length weights = w'" by simp
      have prev: "(weights @ w' # ys) ! (length weights - 1) = w"
        using 1(4,5) by (simp add: nth_append last_conv_nth)
      have "\<forall>j. length weights \<le> j \<and> j < length (weights @ w' # ys) \<longrightarrow>
        (weights @ w' # ys) ! j = - ((weights @ w' # ys) ! (j - 1)) * (d - real j + 1) / real j \<and>
        threshold \<le> \<bar>(weights @ w' # ys) ! j\<bar>"
      proof (intro allI impI)
        fix j assume j: "length weights \<le> j \<and> j < length (weights @ w' # ys)"
        show "(weights @ w' # ys) ! j = - ((weights @ w' # ys) ! (j - 1)) * (d - real j + 1) / real j \<and>
          threshold \<le> \<bar>(weights @ w' # ys) ! j\<bar>"
        proof (cases "j = length weights")
          case True
          then show ?thesis using at_k prev go kn by (simp add: w'_def)
        next
          case False
          with j have "length (weights @ [w']) \<le> j \<and> j < length ((weights @ [w']) @ ys)" by simp
          from rec[rule_format, OF this] show ?thesis
            unfolding append_assoc append_Cons append_Nil .
        qed
      qed
      then show ?thesis using step ys len stop True by (intro exI[of _ "w' # ys"]) auto
    qed
  qed
qed

lemma ffd_weights_d1: "compute_ffd_weights 1 (1 / 100000) 10000 = [1, - 1]"
  by (simp add: compute_ffd_weights_def ffd_loop.simps)

text \<open>
  Claim C2. For every order \<open>d\<close> and every threshold, the weights returned by
  \<^verbatim>\<open>compute_ffd_weights\<close> (with the guard \<open>max_size = 10000\<close>) start with \<open>1\<close>; every
  later weight is obtained from its predecessor by \<open>w[k] = - w[k-1] * (d - k + 1) / k\<close>
  and is not below the threshold in magnitude, so generation did not stop before it;
  there are at most 10000 weights; and when there are fewer, the next weight of the
  recurrence is below the threshold in magnitude and is not part of the result.
\<close>

theorem ffd_weights_recurrence:
  "(let ws = compute_ffd_weights d threshold 10000 in
      ws \<noteq> [] \<and> ws ! 0 = 1 \<and> length ws \<le> 10000 \<and>
      (\<forall>k. 1 \<le> k \<and> k < length ws \<longrightarrow>
         ws ! k = - (ws ! (k - 1)) * (d - real k + 1) / real k \<and> threshold \<le> \<bar>ws ! k\<bar>) \<and>
      (length ws < 10000 \<longrightarrow>
         \<bar>- last ws * (d - real (length ws) + 1) / real (length ws)\<bar> < threshold))"
proof -
  have "\<exists>ys. ffd_loop d threshold 10000 1 1 [1] = [1] @ ys \<and>
     int (length ([1] @ ys)) \<le> max 1 10000 \<and>
     (\<forall>j. length [1::real] \<le> j \<and> j < length ([1] @ ys) \<longrightarrow>
        ([1] @ ys) ! j = - (([1] @ ys) ! (j - 1)) * (d - real j + 1) / real j \<and>
        threshold \<le> \<bar>([1] @ ys) ! j\<bar>) \<and>
     (int (length ([1] @ ys)) < 10000 \<longrightarrow>
        \<bar>- last ([1] @ ys) * (d - real (length ([1] @ ys)) + 1) / real (length ([1] @ ys))\<bar> < threshold)"
    by (rule ffd_loop_inv) simp_all
  then obtain ys where ys: "ffd_loop d threshold 10000 1 1 [1] = [1] @ ys"
    and len: "int (length ([1::real] @ ys)) \<le> max 1 10000"
    and rec: "\<forall>j. length [1::real] \<le> j \<and> j < length ([1] @ ys) \<longrightarrow>
        ([1] @ ys) ! j = - (([1] @ ys) ! (j - 1)) * (d - real j + 1) / real j \<and>
        threshold \<le> \<bar>([1] @ ys) ! j\<bar>"
    and stop: "int (length ([1::real] @ ys)) < 10000 \<longrightarrow>
        \<bar>- last ([1] @ ys) * (d - real (length ([1] @ ys)) + 1) / real (length ([1] @ ys))\<bar> < threshold"
    by blast
  have ws: "compute_ffd_weights d threshold 10000 = [1] @ ys"
    by (simp add: compute_ffd_weights_def ys)
  have l1: "length [1::real] = 1" by simp
  have c1: "[1::real] @ ys \<noteq> []" by simp
  have c2: "([1::real] @ ys) ! 0 = 1" by simp
  have c3: "length ([1::real] @ ys) \<le> 10000" using len by simp
  have c5: "length ([1::real] @ ys) < 10000 \<longrightarrow>
        \<bar>- last ([1] @ ys) * (d - real (length ([1] @ ys)) + 1) / real (length ([1] @ ys))\<bar> < threshold"
  proof
    assume "length ([1::real] @ ys) < 10000"
    then have "int (length ([1::real] @ ys)) < 10000" by simp
    with stop show "\<bar>- last ([1] @ ys) * (d - real (length ([1] @ ys)) + 1) / real (length ([1] @ ys))\<bar> < threshold"
      by blast
  qed
  show ?thesis
    unfolding Let_def ws using c1 c2 c3 rec[unfolded l1] c5 by blast
qed

theorem ffd_weights_recurrence_witness:
  "compute_ffd_weights 1 (1 / 100000) 10000 = [1, - 1] \<and>
   (1::nat) \<le> 1 \<and> 1 < length (compute_ffd_weights 1 (1 / 100000) 10000) \<and>
   compute_ffd_weights 1 (1 / 100000) 10000 ! 1
     = - (compute_ffd_weights 1 (1 / 100000) 10000 ! (1 - 1)) * (1 - real 1 + 1) / real 1 \<and>
   length (compute_ffd_weights 1 (1 / 100000) 10000) < 10000 \<and>
   \<bar>- last (compute_ffd_weights 1 (1 / 100000) 10000)
      * (1 - real (length (compute_ffd_weights 1 (1 / 100000) 10000)) + 1)
      / real (length (compute_ffd_weights 1 (1 / 100000) 10000))\<bar> < (1 / 100000 :: real)"
  using ffd_weights_recurrence[of 1 "1 / 100000"] ffd_weights_d1
  by (simp add: Let_def)

text \<open>
  A loop over array rows: when iteration \<open>i\<close> touches row \<open>i\<close> only, the final row \<open>j\<close> is
  what iteration \<open>j\<close> made of the initial row, and rows outside the range are untouched.
\<close>

lemma for_range_rows:
  fixes row :: "'s \<Rightarrow> nat \<Rightarrow> 'r"
  assumes "0 \<le> a" and "ok st"
    and step: "\<And>i s. a \<le> i \<Longrightarrow> i < b \<Longrightarrow> ok s \<Longrightarrow>
        \<exists>s'. body i s = Inr s' \<and> ok s' \<and> (\<forall>j. j \<noteq> nat i \<longrightarrow> row s' j = row s j) \<and>
             row s' (nat i) = upd i (row s (nat i))"
  shows "\<exists>s'. for_range a b body st = Inr s' \<and> ok s' \<and>
     (\<forall>j. row s' j = (if a \<le> int j \<and> int j < b then upd (int j) (row st j) else row st j))"
proof -
  define I where "I = (\<lambda>i s. a \<le> i \<and> ok s \<and>
     (\<forall>j. row s j = (if a \<le> int j \<and> int j < i then upd (int j) (row st j) else row st j)))"
  have start: "I a st" using assms(2) by (auto simp: I_def)
  have keep: "\<exists>s'. body i s = Inr s' \<and> I (i + 1) s'" if "a \<le> i" "i < b" "I i s" for i s
  proof -
    from that(3) have oks: "ok s"
      and rows: "\<forall>j. row s j = (if a \<le> int j \<and> int j < i then upd (int j) (row st j) else row st j)"
      by (simp_all add: I_def)
    from step[OF that(1,2) oks] obtain s' where s': "body i s = Inr s'" "ok s'"
      "\<forall>j. j \<noteq> nat i \<longrightarrow> row s' j = row s j" "row s' (nat i) = upd i (row s (nat i))"
      by blast
    have i0: "0 \<le> i" using assms(1) that(1) by simp
    have "row s' j = (if a \<le> int j \<and> int j < i + 1 then upd (int j) (row st j) else row st j)" for j
    proof (cases "j = nat i")
      case True
      then have ji: "int j = i" using i0 by simp
      have "row s (nat i) = row st (nat i)" using rows[rule_format, of "nat i"] i0 by simp
      then show ?thesis using s'(4) True ji that(1) by simp
    next
      case False
      then have "int j \<noteq> i" using i0 by auto
      then have "(int j < i + 1) = (int j < i)" by auto
      then show ?thesis using s'(3) False rows by simp
    qed
    then show ?thesis using s'(1,2) that(1) by (auto simp: I_def)
  qed
  from for_range_rule[of I a st b body, OF start keep]
  obtain s' where fin: "for_range a b body st = Inr s'" "I (max a b) s'" by blast
  have "row s' j = (if a \<le> int j \<and> int j < b then upd (int j) (row st j) else row st j)" for j
    using fin(2) by (cases "a \<le> b") (auto simp: I_def max_def)
  then show ?thesis using fin by (auto simp: I_def)
qed

section \<open>The fractional-difference filter\<close>

lemma frac_diff_inner_sum:
  assumes "int (length weights) - 1 \<le> t" "t < int (length series)"
  shows "for_range 0 (int (length weights)) (frac_diff_inner weights series t) 0
     = Inr (\<Sum>k<length weights. weights ! k * series ! (nat t - k))"
proof -
  define I where "I = (\<lambda>j s. 0 \<le> j \<and> j \<le> int (length weights) \<and>
      s = (\<Sum>k<nat j. weights ! k * series ! (nat t - k)))"
  have start: "I 0 0" by (simp add: I_def)
  have keep: "\<exists>s'. frac_diff_inner weights series t j s = Inr s' \<and> I (j + 1) s'"
    if "0 \<le> j" "j < int (length weights)" "I j s" for j s
  proof -
    have g1: "py_get weights j = Inr (weights ! nat j)" using that by (simp add: py_get_nonneg)
    have "0 \<le> t - j" "t - j < int (length series)" using that assms by simp_all
    then have g2: "py_get series (t - j) = Inr (series ! nat (t - j))" by (simp add: py_get_nonneg)
    have n1: "nat (t - j) = nat t - nat j" using that by (simp add: nat_diff_distrib')
    have n2: "nat (j + 1) = Suc (nat j)" using that by (simp add: nat_add_distrib)
    show ?thesis using that g1 g2 by (simp add: frac_diff_inner_def bind_err_def I_def n1 n2)
  qed
  from for_range_rule[of I 0 0 "int (length weights)" "frac_diff_inner weights series t", OF start keep]
  show ?thesis by (auto simp: I_def max_def)
qed

text \<open>
  The filter as a whole: it never raises, keeps the length, computes the convolution from
  index \<open>len(weights) - 1\<close> on, and leaves NaN before.
\<close>

lemma frac_diff_manual_rows:
  "\<exists>res. frac_diff_manual series d threshold = Inr res \<and> length res = length series \<and>
     (\<forall>j. res ! j =
        (if int (length (compute_ffd_weights d threshold 10000)) - 1 \<le> int j \<and> j < length series
         then Some (\<Sum>k<length (compute_ffd_weights d threshold 10000).
                compute_ffd_weights d threshold 10000 ! k * series ! (j - k))
         else replicate (length series) nan ! j))"
proof -
  define ws where "ws = compute_ffd_weights d threshold 10000"
  have ne: "ws \<noteq> []" using ffd_loop_inv[of 1 "[1]" 1 d threshold 10000]
    by (auto simp: ws_def compute_ffd_weights_def)
  then have "0 < length ws" by simp
  then have a0: "0 \<le> int (length ws) - 1" by linarith
  have step: "\<exists>s'. frac_diff_step ws series (int (length ws)) i s = Inr s' \<and> length s' = length series \<and>
        (\<forall>j. j \<noteq> nat i \<longrightarrow> s' ! j = s ! j) \<and>
        s' ! nat i = (\<lambda>i _. Some (\<Sum>k<length ws. ws ! k * series ! (nat i - k))) i (s ! nat i)"
    if "int (length ws) - 1 \<le> i" "i < int (length series)" "length s = length series" for i s
  proof -
    have "0 \<le> i" using a0 that(1) by linarith
    then show ?thesis using that
      by (simp add: frac_diff_step_def frac_diff_inner_sum bind_err_def py_set_nonneg)
  qed
  have init: "length (replicate (length series) (nan :: float64)) = length series" by simp
  have "\<exists>res. for_range (int (length ws) - 1) (int (length series))
        (frac_diff_step ws series (int (length ws))) (replicate (length series) nan) = Inr res \<and>
      length res = length series \<and>
      (\<forall>j. res ! j = (if int (length ws) - 1 \<le> int j \<and> int j < int (length series)
        then Some (\<Sum>k<length ws. ws ! k * series ! (nat (int j) - k))
        else replicate (length series) nan ! j))"
    by (rule for_range_rows[where ok = "\<lambda>s. length s = length series" and row = "\<lambda>s j. s ! j"
          and upd = "\<lambda>i _. Some (\<Sum>k<length ws. ws ! k * series ! (nat i - k))", OF a0 init step])
  then obtain res where res: "for_range (int (length ws) - 1) (int (length series))
        (frac_diff_step ws series (int (length ws))) (replicate (length series) nan) = Inr res"
    "length res = length series"
    "\<forall>j. res ! j = (if int (length ws) - 1 \<le> int j \<and> int j < int (length series)
        then Some (\<Sum>k<length ws. ws ! k * series ! (nat (int j) - k))
        else replicate (length series) nan ! j)"
    by blast
  have run: "frac_diff_manual series d threshold = Inr res"
    using res(1) by (simp add: frac_diff_manual_def Let_def ws_def)
  have "res ! j = (if int (length ws) - 1 \<le> int j \<and> j < length series
         then Some (\<Sum>k<length ws. ws ! k * series ! (j - k))
         else replicate (length series) nan ! j)" for j
    using res(3)[rule_format, of j] by simp
  then show ?thesis using run res(2) unfolding ws_def by blast
qed

lemma ffd_weights_d0: "0 < threshold \<Longrightarrow> compute_ffd_weights 0 threshold 10000 = [1]"
  by (simp add: compute_ffd_weights_def ffd_loop.simps)

text \<open>
  Claim C7. With \<open>d = 0\<close> (and a positive threshold, as the parameters require) the
  weight series is \<open>[1.0]\<close>, and the filter returns the input series itself: every index
  is valid and holds the input value.
\<close>

theorem frac_diff_identity:
  assumes "0 < threshold"
  shows "compute_ffd_weights 0 threshold 10000 = [1] \<and>
     frac_diff_manual series 0 threshold = Inr (map Some series)"
proof -
  have ws: "compute_ffd_weights 0 threshold 10000 = [1]" using assms by (rule ffd_weights_d0)
  obtain res where res: "frac_diff_manual series 0 threshold = Inr res"
    "length res = length series"
    "\<forall>j. res ! j =
        (if int (length (compute_ffd_weights 0 threshold 10000)) - 1 \<le> int j \<and> j < length series
         then Some (\<Sum>k<length (compute_ffd_weights 0 threshold 10000).
                compute_ffd_weights 0 threshold 10000 ! k * series ! (j - k))
         else replicate (length series) nan ! j)"
    using frac_diff_manual_rows[of series 0 threshold] by blast
  have "res = map Some series"
  proof (rule nth_equalityI)
    show "length res = length (map Some series)" using res(2) by simp
  next
    fix j assume "j < length res"
    then show "res ! j = map Some series ! j" using res(2,3) ws by simp
  qed
  then show ?thesis using ws res(1) by simp
qed

theorem frac_diff_identity_witness:
  "(0::real) < 1 / 100000 \<and> compute_ffd_weights 0 (1 / 100000) 10000 = [1] \<and>
   frac_diff_manual [3, 1, 4] 0 (1 / 100000) = Inr [Some 3, Some 1, Some 4]"
proof -
  have h: "(0::real) < 1 / 100000" by simp
  show ?thesis using h frac_diff_identity[OF h, of "[3, 1, 4]"] by simp
qed

section \<open>Rolling half-life\<close>

lemma py_slice_window_slice:
  assumes "0 < window" "window - 1 \<le> i" "i < int (length xs)"
  shows "py_slice xs (i - window + 1) (i + 1) = window_slice xs (nat window) (nat i)"
proof -
  have "py_slice xs (i - window + 1) (i + 1)
      = take (nat ((i + 1) - (i - window + 1))) (drop (nat (i - window + 1)) xs)"
    using assms by (intro py_slice_window) simp_all
  moreover have "nat ((i + 1) - (i - window + 1)) = nat window" by simp
  moreover have "nat (i - window + 1) = nat i + 1 - nat window" using assms by linarith
  ultimately show ?thesis by (simp add: window_slice_def)
qed

lemma half_life_step_row:
  assumes "0 < window" "window - 1 \<le> i" "i < int n" "length series = n" "half_life_ok n st"
  shows "\<exists>st'. half_life_step series window i st = Inr st' \<and> half_life_ok n st' \<and>
     (\<forall>j. j \<noteq> nat i \<longrightarrow> half_life_row st' j = half_life_row st j) \<and>
     half_life_row st' (nat i)
       = half_life_of (window_slice series (nat window) (nat i)) window (half_life_row st (nat i))"
proof -
  have i0: "0 \<le> i" using assms by simp
  have sl: "py_slice series (i - window + 1) (i + 1) = window_slice series (nat window) (nat i)"
    using assms by (intro py_slice_window_slice) simp_all
  have idx: "nat i < n" using assms i0 by simp
  show ?thesis
    using assms(5) i0 assms(3) idx
    by (simp add: half_life_step_def sl Let_def bind_err_def py_set_nonneg py_get_nonneg
        half_life_ok_def half_life_row_def half_life_of_def)
qed

text \<open>
  The whole loop, for a positive window: it does not raise, and row \<open>j\<close> of the frame is
  the initial row before index \<open>window - 1\<close> and the row of its own window from there on.
\<close>

lemma half_life_rows:
  assumes "0 < window"
  shows "\<exists>r. compute_half_life_ar1 series window = Inr r \<and> half_life_ok (length series) r \<and>
     (\<forall>j. half_life_row r j =
        (if window - 1 \<le> int j \<and> j < length series
         then half_life_of (window_slice series (nat window) j) window (nan, nan, 0)
         else (replicate (length series) nan ! j, replicate (length series) nan ! j,
               replicate (length series) 0 ! j)))"
proof -
  define n where "n = length series"
  have a0: "0 \<le> window - 1" using assms by simp
  have init: "half_life_ok n (half_life_init n)" by (simp add: half_life_ok_def half_life_init_def)
  have step: "\<exists>s'. half_life_step series window i s = Inr s' \<and> half_life_ok n s' \<and>
        (\<forall>j. j \<noteq> nat i \<longrightarrow> half_life_row s' j = half_life_row s j) \<and>
        half_life_row s' (nat i)
          = (\<lambda>i. half_life_of (window_slice series (nat window) (nat i)) window) i (half_life_row s (nat i))"
    if "window - 1 \<le> i" "i < int n" "half_life_ok n s" for i s
    using half_life_step_row[OF assms that(1,2) n_def[symmetric] that(3)] by simp
  have "\<exists>r. for_range (window - 1) (int n) (half_life_step series window) (half_life_init n) = Inr r \<and>
      half_life_ok n r \<and>
      (\<forall>j. half_life_row r j = (if window - 1 \<le> int j \<and> int j < int n
        then (\<lambda>i. half_life_of (window_slice series (nat window) (nat i)) window) (int j)
               (half_life_row (half_life_init n) j)
        else half_life_row (half_life_init n) j))"
    by (rule for_range_rows[where ok = "half_life_ok n" and row = half_life_row, OF a0 init step])
  then obtain r where r:
    "for_range (window - 1) (int n) (half_life_step series window) (half_life_init n) = Inr r"
    "half_life_ok n r"
    "\<forall>j. half_life_row r j = (if window - 1 \<le> int j \<and> int j < int n
        then (\<lambda>i. half_life_of (window_slice series (nat window) (nat i)) window) (int j)
               (half_life_row (half_life_init n) j)
        else half_life_row (half_life_init n) j)"
    by blast
  have run: "compute_half_life_ar1 series window = Inr r"
    using r(1) by (simp add: compute_half_life_ar1_def Let_def n_def)
  have "half_life_row r j =
        (if window - 1 \<le> int j \<and> j < n
         then half_life_of (window_slice series (nat window) j) window (nan, nan, 0)
         else (replicate n nan ! j, replicate n nan ! j, replicate n 0 ! j))" for j
    using r(3)[rule_format, of j] by (simp add: half_life_row_def half_life_init_def)
  then show ?thesis using run r(2) unfolding n_def by blast
qed

text \<open>numpy's moments are the sample moments of the specification.\<close>

lemma sum_list_map2_nth:
  "length xs = length ys \<Longrightarrow>
   sum_list (map2 f xs ys) = (\<Sum>i<length ys. f (xs ! i) (ys ! i))"
  by (simp add: sum_list_sum_nth atLeast0LessThan)

lemma sum_list_map_nth: "sum_list (map f ys) = (\<Sum>i<length ys. f (ys ! i))"
  by (simp add: sum_list_sum_nth atLeast0LessThan)

lemma ar1_phi_sample: "ar1_phi window_data = Some (phi_sample (drop 1 window_data) (butlast window_data))"
proof -
  define y_t where "y_t = drop 1 window_data"
  define y_lag where "y_lag = butlast window_data"
  have len: "length y_t = length y_lag" by (simp add: y_t_def y_lag_def)
  show ?thesis
  proof (cases "length y_lag \<le> 1")
    case True
    then have "length y_lag = 0 \<or> length y_lag = 1" by linarith
    then have "var_lag_sample y_lag = 0"
      by (auto simp: var_lag_sample_def)
    then have "phi_sample y_t y_lag = 0" by (simp add: phi_sample_def)
    moreover have "ar1_phi window_data = Some 0"
      using True by (simp add: ar1_phi_def np_var_ddof1_def f_lt_def y_lag_def[symmetric] Let_def)
    ultimately show ?thesis by (simp add: y_t_def y_lag_def)
  next
    case False
    then have m2: "2 \<le> length y_lag" by simp
    have rm: "real (length y_lag - 1) = real (length y_lag) - 1" using m2 by (simp add: of_nat_diff)
    have var: "np_var_ddof1 y_lag = Some (var_lag_sample y_lag)"
      using False
      by (simp add: np_var_ddof1_def var_lag_sample_def mean_def Let_def sum_list_map_nth rm
          power2_eq_square)
    have cov: "np_cov01 y_t y_lag = Some (cov_sample y_t y_lag)"
      using False len
      by (simp add: np_cov01_def cov_sample_def mean_def Let_def sum_list_map2_nth)
    have "ar1_phi window_data = Some (phi_sample y_t y_lag)"
      unfolding ar1_phi_def Let_def y_t_def[symmetric] y_lag_def[symmetric] var cov
      by (auto simp: phi_sample_def f_lt_def f_div_def)
    then show ?thesis by (simp add: y_t_def y_lag_def)
  qed
qed

lemma half_life_example: "ar1_phi [0, 1 / 50000, 3 / 100000] = Some (1 / 2)"
  by (simp add: ar1_phi_def np_cov01_def np_var_ddof1_def f_lt_def f_div_def Let_def)

lemma phi_pop_example: "phi_pop [1 / 50000, 3 / 100000] [0, 1 / 50000] = 0"
  by (simp add: phi_pop_def mean_def Let_def power2_eq_square)

text \<open>
  Claim C1. For a positive window and every index \<open>t \<ge> window - 1\<close> of the series,
  \<^verbatim>\<open>compute_half_life_ar1\<close> returns, and the coefficient it stores at \<open>t\<close> is the one of the
  specification on the lag pairs of the window \<open>series[t - window + 1 .. t]\<close>: sample
  covariance over sample variance of the lagged values, both with the \<open>N - 1\<close>
  denominator, when that variance exceeds \<open>1e-10\<close>, and \<open>0.0\<close> otherwise. The population
  convention is a different function (\<open>phi_pop_example\<close> and the witness give a window
  where it yields 0 and the program \<open>1/2\<close>).
\<close>

theorem half_life_phi_sample:
  assumes "0 < window" "window - 1 \<le> int t" "t < length series"
  shows "\<exists>r. compute_half_life_ar1 series window = Inr r \<and>
     ar1_coefs r ! t =
       Some (phi_sample (drop 1 (window_slice series (nat window) t))
                        (butlast (window_slice series (nat window) t)))"
proof -
  obtain r where r: "compute_half_life_ar1 series window = Inr r"
    "\<forall>j. half_life_row r j =
        (if window - 1 \<le> int j \<and> j < length series
         then half_life_of (window_slice series (nat window) j) window (nan, nan, 0)
         else (replicate (length series) nan ! j, replicate (length series) nan ! j,
               replicate (length series) 0 ! j))"
    using half_life_rows[OF assms(1), of series] by blast
  have "half_life_row r t = half_life_of (window_slice series (nat window) t) window (nan, nan, 0)"
    using r(2)[rule_format, of t] assms by simp
  then have "ar1_coefs r ! t = ar1_phi (window_slice series (nat window) t)"
    by (simp add: half_life_row_def half_life_of_def Let_def split: if_splits)
  then show ?thesis using r(1) by (simp add: ar1_phi_sample)
qed

theorem half_life_phi_sample_witness:
  "(0::int) < 3 \<and> (3::int) - 1 \<le> int 2 \<and> 2 < length [0, 1 / 50000, 3 / 100000 :: real] \<and>
   (\<exists>r. compute_half_life_ar1 [0, 1 / 50000, 3 / 100000] 3 = Inr r \<and> ar1_coefs r ! 2 = Some (1 / 2)) \<and>
   phi_sample [1 / 50000, 3 / 100000] [0, 1 / 50000] = 1 / 2 \<and>
   phi_pop [1 / 50000, 3 / 100000] [0, 1 / 50000] = 0"
proof -
  have h: "(0::int) < 3" "(3::int) - 1 \<le> int 2" "2 < length [0, 1 / 50000, 3 / 100000 :: real]"
    by simp_all
  have ps: "phi_sample [1 / 50000, 3 / 100000] [0, 1 / 50000] = 1 / 2"
    using half_life_example unfolding ar1_phi_sample by simp
  show ?thesis
    using half_life_phi_sample[OF h] h phi_pop_example by (simp add: window_slice_def ps)
qed

lemma half_life_row_at:
  assumes "0 < window" "window - 1 \<le> int t" "t < length series"
  shows "\<exists>r. compute_half_life_ar1 series window = Inr r \<and>
     half_life_row r t = half_life_of (window_slice series (nat window) t) window (nan, nan, 0)"
proof -
  obtain r where r: "compute_half_life_ar1 series window = Inr r"
    "\<forall>j. half_life_row r j =
        (if window - 1 \<le> int j \<and> j < length series
         then half_life_of (window_slice series (nat window) j) window (nan, nan, 0)
         else (replicate (length series) nan ! j, replicate (length series) nan ! j,
               replicate (length series) 0 ! j))"
    using half_life_rows[OF assms(1), of series] by blast
  then show ?thesis using r(2)[rule_format, of t] assms by simp
qed

lemma half_life_of_cases:
  assumes "ar1_phi window_data = Some phi"
  shows "half_life_of window_data window old =
     (if 0 < phi \<and> phi < 1
      then (Some (min (- ln 2 / ln phi) (real_of_int (window * 10))), Some phi, 1)
      else (nan, Some phi, snd (snd old)))"
proof (cases "0 < phi \<and> phi < 1")
  case True
  then have "ln phi < 0" by simp
  then show ?thesis using True assms
    by (simp add: half_life_of_def Let_def f_lt_def np_log_def f_div_def py_min_def min_def)
next
  case False
  then show ?thesis using assms by (auto simp: half_life_of_def Let_def f_lt_def)
qed

lemma ln_half: "ln (1 / 2 :: real) = - ln 2"
  by (simp add: ln_div)

lemma half_life_example_explosive: "ar1_phi [1, 2, 4] = Some 2"
  by (simp add: ar1_phi_def np_cov01_def np_var_ddof1_def f_lt_def f_div_def Let_def)

text \<open>
  Claim C6. For a positive window and every index \<open>t \<ge> window - 1\<close> the coefficient
  \<open>phi\<close> is stored, and: when \<open>0 < phi < 1\<close> the half-life stored at \<open>t\<close> is the minimum
  of \<open>- ln 2 / ln phi\<close> and \<open>window * 10\<close> and the flag is 1; otherwise the half-life is
  NaN and the flag is 0. So a half-life that is stored never exceeds \<open>window * 10\<close>.
\<close>

theorem half_life_derivation:
  assumes "0 < window" "window - 1 \<le> int t" "t < length series"
  shows "\<exists>r phi. compute_half_life_ar1 series window = Inr r \<and> ar1_coefs r ! t = Some phi \<and>
     (0 < phi \<and> phi < 1 \<longrightarrow>
        half_lives r ! t = Some (min (- ln 2 / ln phi) (real_of_int (window * 10))) \<and>
        is_mean_reverting r ! t = 1) \<and>
     (\<not> (0 < phi \<and> phi < 1) \<longrightarrow> half_lives r ! t = nan \<and> is_mean_reverting r ! t = 0) \<and>
     (\<forall>h. half_lives r ! t = Some h \<longrightarrow> h \<le> real_of_int (window * 10))"
proof -
  define wd where "wd = window_slice series (nat window) t"
  obtain r where r: "compute_half_life_ar1 series window = Inr r"
    "half_life_row r t = half_life_of wd window (nan, nan, 0)"
    using half_life_row_at[OF assms] unfolding wd_def by blast
  obtain phi where phi: "ar1_phi wd = Some phi" by (simp add: ar1_phi_sample)
  have row: "(half_lives r ! t, ar1_coefs r ! t, is_mean_reverting r ! t) =
     (if 0 < phi \<and> phi < 1
      then (Some (min (- ln 2 / ln phi) (real_of_int (window * 10))), Some phi, 1)
      else (nan, Some phi, 0))"
    using r(2) half_life_of_cases[OF phi, of window "(nan, nan, 0)"]
    by (simp add: half_life_row_def)
  have "ar1_coefs r ! t = Some phi" using row by (simp split: if_splits)
  moreover have "0 < phi \<and> phi < 1 \<longrightarrow>
        half_lives r ! t = Some (min (- ln 2 / ln phi) (real_of_int (window * 10))) \<and>
        is_mean_reverting r ! t = 1"
    using row by (auto split: if_splits)
  moreover have "\<not> (0 < phi \<and> phi < 1) \<longrightarrow> half_lives r ! t = nan \<and> is_mean_reverting r ! t = 0"
    using row by (auto split: if_splits)
  moreover have "\<forall>h. half_lives r ! t = Some h \<longrightarrow> h \<le> real_of_int (window * 10)"
    using row by (auto split: if_splits)
  ultimately show ?thesis using r(1) by blast
qed

theorem half_life_derivation_witness:
  "(\<exists>r. compute_half_life_ar1 [0, 1 / 50000, 3 / 100000] 3 = Inr r \<and>
        ar1_coefs r ! 2 = Some (1 / 2) \<and> half_lives r ! 2 = Some 1 \<and> is_mean_reverting r ! 2 = 1) \<and>
   (\<exists>r. compute_half_life_ar1 [1, 2, 4] 3 = Inr r \<and>
        ar1_coefs r ! 2 = Some 2 \<and> half_lives r ! 2 = nan \<and> is_mean_reverting r ! 2 = 0)"
proof -
  have h1: "(0::int) < 3" "(3::int) - 1 \<le> int 2" "2 < length [0, 1 / 50000, 3 / 100000 :: real]"
    by simp_all
  have h2: "2 < length [1, 2, 4 :: real]" by simp
  have w1: "window_slice [0, 1 / 50000, 3 / 100000 :: real] (nat 3) 2 = [0, 1 / 50000, 3 / 100000]"
    and w2: "window_slice [1, 2, 4 :: real] (nat 3) 2 = [1, 2, 4]"
    by (simp_all add: window_slice_def)
  obtain r phi where a: "compute_half_life_ar1 [0, 1 / 50000, 3 / 100000] 3 = Inr r"
    "ar1_coefs r ! 2 = Some phi"
    "0 < phi \<and> phi < 1 \<longrightarrow> half_lives r ! 2 = Some (min (- ln 2 / ln phi) (real_of_int (3 * 10)))
       \<and> is_mean_reverting r ! 2 = 1"
    using half_life_derivation[OF h1] by blast
  obtain r' where a': "compute_half_life_ar1 [0, 1 / 50000, 3 / 100000] 3 = Inr r'"
    "half_life_row r' 2 = half_life_of (window_slice [0, 1 / 50000, 3 / 100000] (nat 3) 2) 3 (nan, nan, 0)"
    using half_life_row_at[OF h1] by blast
  have "r' = r" using a(1) a'(1) by simp
  then have "ar1_coefs r ! 2 = Some (1 / 2)"
    using a'(2) half_life_of_cases[OF half_life_example, of 3 "(nan, nan, 0)"]
    unfolding w1 by (simp add: half_life_row_def)
  then have p: "phi = 1 / 2" using a(2) by simp
  have "min (- ln 2 / ln (1 / 2 :: real)) (real_of_int (3 * 10)) = 1"
    unfolding ln_half by simp
  then have first: "ar1_coefs r ! 2 = Some (1 / 2) \<and> half_lives r ! 2 = Some 1 \<and> is_mean_reverting r ! 2 = 1"
    using a(2,3) unfolding p by simp
  obtain s psi where b: "compute_half_life_ar1 [1, 2, 4] 3 = Inr s"
    "ar1_coefs s ! 2 = Some psi"
    "\<not> (0 < psi \<and> psi < 1) \<longrightarrow> half_lives s ! 2 = nan \<and> is_mean_reverting s ! 2 = 0"
    using half_life_derivation[OF h1(1,2) h2] by blast
  obtain s' where b': "compute_half_life_ar1 [1, 2, 4] 3 = Inr s'"
    "half_life_row s' 2 = half_life_of (window_slice [1, 2, 4] (nat 3) 2) 3 (nan, nan, 0)"
    using half_life_row_at[OF h1(1,2) h2] by blast
  have "s' = s" using b(1) b'(1) by simp
  then have "ar1_coefs s ! 2 = Some 2"
    using b'(2) half_life_of_cases[OF half_life_example_explosive, of 3 "(nan, nan, 0)"]
    unfolding w2 by (simp add: half_life_row_def)
  then have q: "psi = 2" using b(2) by simp
  have second: "ar1_coefs s ! 2 = Some 2 \<and> half_lives s ! 2 = nan \<and> is_mean_reverting s ! 2 = 0"
    using b(2,3) unfolding q by simp
  show ?thesis using a(1) first b(1) second by blast
qed

section \<open>Loops whose body is a \<^verbatim>\<open>try\<close> block\<close>

lemma for_range_total:
  assumes "ok st" and "\<And>i s. ok s \<Longrightarrow> ok (f i s)"
  shows "\<exists>s'. for_range a b (\<lambda>i s. Inr (f i s)) st = Inr s' \<and> ok s'"
  using for_range_rule[of "\<lambda>i s. ok s" a st b "\<lambda>i s. Inr (f i s)"] assms by simp

text \<open>
  When iteration \<open>i\<close> touches row \<open>i\<close> only and what it writes there depends on that row
  only, the final row \<open>j\<close> is the row \<open>j\<close> of iteration \<open>j\<close> run alone on the initial arrays.
\<close>

lemma for_range_rows_step:
  fixes row :: "'s \<Rightarrow> nat \<Rightarrow> 'r"
  assumes a0: "0 \<le> a" and init: "ok st"
    and keep: "\<And>i s. a \<le> i \<Longrightarrow> i < b \<Longrightarrow> ok s \<Longrightarrow>
        ok (f i s) \<and> (\<forall>j. j \<noteq> nat i \<longrightarrow> row (f i s) j = row s j)"
    and local: "\<And>i s s2. a \<le> i \<Longrightarrow> i < b \<Longrightarrow> ok s \<Longrightarrow> ok s2 \<Longrightarrow>
        row s (nat i) = row s2 (nat i) \<Longrightarrow> row (f i s) (nat i) = row (f i s2) (nat i)"
  shows "\<exists>s'. for_range a b (\<lambda>i s. Inr (f i s)) st = Inr s' \<and> ok s' \<and>
     (\<forall>j. row s' j = (if a \<le> int j \<and> int j < b then row (f (int j) st) j else row st j))"
proof -
  define upd where "upd = (\<lambda>i old. row (f i (SOME s2. ok s2 \<and> row s2 (nat i) = old)) (nat i))"
  have upd_eq: "row (f i s) (nat i) = upd i (row s (nat i))" if "a \<le> i" "i < b" "ok s" for i s
  proof -
    have "ok (SOME s2. ok s2 \<and> row s2 (nat i) = row s (nat i)) \<and>
          row (SOME s2. ok s2 \<and> row s2 (nat i) = row s (nat i)) (nat i) = row s (nat i)"
      by (rule someI[of "\<lambda>s2. ok s2 \<and> row s2 (nat i) = row s (nat i)" s]) (simp add: that(3))
    then show ?thesis unfolding upd_def using local[OF that(1,2,3)] by simp
  qed
  have step: "\<exists>s'. (\<lambda>i s. Inr (f i s)) i s = Inr s' \<and> ok s' \<and>
        (\<forall>j. j \<noteq> nat i \<longrightarrow> row s' j = row s j) \<and> row s' (nat i) = upd i (row s (nat i))"
    if "a \<le> i" "i < b" "ok s" for i s
    using keep[OF that] upd_eq[OF that] by simp
  have "\<exists>s'. for_range a b (\<lambda>i s. Inr (f i s)) st = Inr s' \<and> ok s' \<and>
     (\<forall>j. row s' j = (if a \<le> int j \<and> int j < b then upd (int j) (row st j) else row st j))"
    by (rule for_range_rows[where ok = ok and row = row, OF a0 init step])
  then obtain s' where s': "for_range a b (\<lambda>i s. Inr (f i s)) st = Inr s'" "ok s'"
    "\<forall>j. row s' j = (if a \<le> int j \<and> int j < b then upd (int j) (row st j) else row st j)"
    by blast
  have "row s' j = (if a \<le> int j \<and> int j < b then row (f (int j) st) j else row st j)" for j
    using s'(3)[rule_format, of j] upd_eq[of "int j" st] init by simp
  then show ?thesis using s'(1,2) by blast
qed

section \<open>Rolling ADF\<close>

lemma rolling_adf_step_ok:
  "adf_ok n st \<Longrightarrow> adf_ok n (rolling_adf_step adfuller series window maxlag regression i st)"
  by (auto simp: rolling_adf_step_def attempt_def Let_def adf_ok_def split: sum.splits
      dest: py_set_length)

lemma rolling_adf_step_keep:
  assumes "0 \<le> i" "i < int n" "adf_ok n st" "j \<noteq> nat i"
  shows "adf_row (rolling_adf_step adfuller series window maxlag regression i st) j = adf_row st j"
  using assms
  by (simp add: rolling_adf_step_def attempt_def Let_def adf_ok_def adf_row_def py_set_nonneg
      split: sum.splits)

lemma rolling_adf_step_local:
  assumes "0 \<le> i" "i < int n" "adf_ok n st" "adf_ok n st2" "adf_row st (nat i) = adf_row st2 (nat i)"
  shows "adf_row (rolling_adf_step adfuller series window maxlag regression i st) (nat i)
       = adf_row (rolling_adf_step adfuller series window maxlag regression i st2) (nat i)"
proof -
  have "nat i < n" using assms by simp
  then show ?thesis using assms
    by (simp add: rolling_adf_step_def attempt_def Let_def adf_ok_def adf_row_def py_set_nonneg
        split: sum.splits)
qed

lemma rolling_adf_total:
  "\<exists>r. compute_rolling_adf adfuller series window maxlag regression = Inr r \<and>
       adf_ok (length series) r"
  unfolding compute_rolling_adf_def Let_def
proof (rule for_range_total[where ok = "adf_ok (length series)"])
  show "adf_ok (length series) (adf_init (length series))"
    by (simp add: adf_ok_def adf_init_def)
qed (rule rolling_adf_step_ok)

lemma rolling_adf_rows:
  assumes "0 < window"
  shows "\<exists>r. compute_rolling_adf adfuller series window maxlag regression = Inr r \<and>
     adf_ok (length series) r \<and>
     (\<forall>j. adf_row r j =
        (if window - 1 \<le> int j \<and> j < length series
         then adf_row (rolling_adf_step adfuller series window maxlag regression (int j)
                 (adf_init (length series))) j
         else adf_row (adf_init (length series)) j))"
proof -
  define n where "n = length series"
  have a0: "0 \<le> window - 1" using assms by simp
  have init: "adf_ok n (adf_init n)" by (simp add: adf_ok_def adf_init_def)
  have keep: "adf_ok n (rolling_adf_step adfuller series window maxlag regression i s) \<and>
      (\<forall>j. j \<noteq> nat i \<longrightarrow>
         adf_row (rolling_adf_step adfuller series window maxlag regression i s) j = adf_row s j)"
    if "window - 1 \<le> i" "i < int n" "adf_ok n s" for i s
    using that a0 rolling_adf_step_ok[OF that(3)] rolling_adf_step_keep[of i n s] by simp
  have local: "adf_row (rolling_adf_step adfuller series window maxlag regression i s) (nat i)
       = adf_row (rolling_adf_step adfuller series window maxlag regression i s2) (nat i)"
    if "window - 1 \<le> i" "i < int n" "adf_ok n s" "adf_ok n s2"
      "adf_row s (nat i) = adf_row s2 (nat i)" for i s s2
    using that a0 by (intro rolling_adf_step_local[of i n]) simp_all
  have "\<exists>r. for_range (window - 1) (int n)
        (\<lambda>i s. Inr (rolling_adf_step adfuller series window maxlag regression i s)) (adf_init n) = Inr r \<and>
      adf_ok n r \<and>
      (\<forall>j. adf_row r j = (if window - 1 \<le> int j \<and> int j < int n
         then adf_row (rolling_adf_step adfuller series window maxlag regression (int j) (adf_init n)) j
         else adf_row (adf_init n) j))"
    by (rule for_range_rows_step[where ok = "adf_ok n" and row = adf_row, OF a0 init keep local])
  then show ?thesis unfolding n_def by (simp add: compute_rolling_adf_def Let_def)
qed
section \<open>Rolling Engle-Granger\<close>

lemma engle_granger_step_ok:
  "eg_ok n st \<Longrightarrow> eg_ok n (engle_granger_step ols coint y x window i st)"
  by (auto simp: engle_granger_step_def attempt_def Let_def eg_ok_def split: sum.splits
      dest: py_set_length)

lemma engle_granger_step_keep:
  assumes "0 \<le> i" "i < int n" "eg_ok n st" "j \<noteq> nat i"
  shows "eg_row (engle_granger_step ols coint y x window i st) j = eg_row st j"
  using assms
  by (simp add: engle_granger_step_def attempt_def Let_def eg_ok_def eg_row_def py_set_nonneg
      split: sum.splits)

lemma engle_granger_step_local:
  assumes "0 \<le> i" "i < int n" "eg_ok n st" "eg_ok n st2" "eg_row st (nat i) = eg_row st2 (nat i)"
  shows "eg_row (engle_granger_step ols coint y x window i st) (nat i)
       = eg_row (engle_granger_step ols coint y x window i st2) (nat i)"
proof -
  have "nat i < n" using assms by simp
  then show ?thesis using assms
    by (simp add: engle_granger_step_def attempt_def Let_def eg_ok_def eg_row_def py_set_nonneg
        split: sum.splits)
qed

lemma engle_granger_total:
  "\<exists>r. compute_engle_granger ols coint y x window = Inr r \<and>
       eg_ok (length y) r"
  unfolding compute_engle_granger_def Let_def
proof (rule for_range_total[where ok = "eg_ok (length y)"])
  show "eg_ok (length y) (eg_init (length y))"
    by (simp add: eg_ok_def eg_init_def)
qed (rule engle_granger_step_ok)

lemma engle_granger_rows:
  assumes "0 < window"
  shows "\<exists>r. compute_engle_granger ols coint y x window = Inr r \<and>
     eg_ok (length y) r \<and>
     (\<forall>j. eg_row r j =
        (if window - 1 \<le> int j \<and> j < length y
         then eg_row (engle_granger_step ols coint y x window (int j)
                 (eg_init (length y))) j
         else eg_row (eg_init (length y)) j))"
proof -
  define n where "n = length y"
  have a0: "0 \<le> window - 1" using assms by simp
  have init: "eg_ok n (eg_init n)" by (simp add: eg_ok_def eg_init_def)
  have keep: "eg_ok n (engle_granger_step ols coint y x window i s) \<and>
      (\<forall>j. j \<noteq> nat i \<longrightarrow>
         eg_row (engle_granger_step ols coint y x window i s) j = eg_row s j)"
    if "window - 1 \<le> i" "i < int n" "eg_ok n s" for i s
    using that a0 engle_granger_step_ok[OF that(3)] engle_granger_step_keep[of i n s] by simp
  have local: "eg_row (engle_granger_step ols coint y x window i s) (nat i)
       = eg_row (engle_granger_step ols coint y x window i s2) (nat i)"
    if "window - 1 \<le> i" "i < int n" "eg_ok n s" "eg_ok n s2"
      "eg_row s (nat i) = eg_row s2 (nat i)" for i s s2
    using that a0 by (intro engle_granger_step_local[of i n]) simp_all
  have "\<exists>r. for_range (window - 1) (int n)
        (\<lambda>i s. Inr (engle_granger_step ols coint y x window i s)) (eg_init n) = Inr r \<and>
      eg_ok n r \<and>
      (\<forall>j. eg_row r j = (if window - 1 \<le> int j \<and> int j < int n
         then eg_row (engle_granger_step ols coint y x window (int j) (eg_init n)) j
         else eg_row (eg_init n) j))"
    by (rule for_range_rows_step[where ok = "eg_ok n" and row = eg_row, OF a0 init keep local])
  then show ?thesis unfolding n_def by (simp add: compute_engle_granger_def Let_def)
qed
section \<open>Rolling Johansen\<close>

lemma johansen_step_ok:
  "johansen_ok n st \<Longrightarrow> johansen_ok n (johansen_step coint_johansen data window det_order k_ar_diff i st)"
  by (auto simp: johansen_step_def store_rank_def attempt_def Let_def johansen_ok_def split: sum.splits
      dest: py_set_length)

lemma johansen_step_keep:
  assumes "0 \<le> i" "i < int n" "johansen_ok n st" "j \<noteq> nat i"
  shows "johansen_row (johansen_step coint_johansen data window det_order k_ar_diff i st) j = johansen_row st j"
  using assms
  by (simp add: johansen_step_def store_rank_def attempt_def Let_def johansen_ok_def johansen_row_def py_set_nonneg
      split: sum.splits)

lemma johansen_step_local:
  assumes "0 \<le> i" "i < int n" "johansen_ok n st" "johansen_ok n st2" "johansen_row st (nat i) = johansen_row st2 (nat i)"
  shows "johansen_row (johansen_step coint_johansen data window det_order k_ar_diff i st) (nat i)
       = johansen_row (johansen_step coint_johansen data window det_order k_ar_diff i st2) (nat i)"
proof -
  have "nat i < n" using assms by simp
  then show ?thesis using assms
    by (simp add: johansen_step_def store_rank_def attempt_def Let_def johansen_ok_def johansen_row_def py_set_nonneg
        split: sum.splits)
qed

lemma johansen_total:
  "\<exists>r. compute_johansen coint_johansen data window det_order k_ar_diff = Inr r \<and>
       johansen_ok (length data) r"
  unfolding compute_johansen_def Let_def
proof (rule for_range_total[where ok = "johansen_ok (length data)"])
  show "johansen_ok (length data) (johansen_init (length data))"
    by (simp add: johansen_ok_def johansen_init_def)
qed (rule johansen_step_ok)

lemma johansen_rows:
  assumes "0 < window"
  shows "\<exists>r. compute_johansen coint_johansen data window det_order k_ar_diff = Inr r \<and>
     johansen_ok (length data) r \<and>
     (\<forall>j. johansen_row r j =
        (if window - 1 \<le> int j \<and> j < length data
         then johansen_row (johansen_step coint_johansen data window det_order k_ar_diff (int j)
                 (johansen_init (length data))) j
         else johansen_row (johansen_init (length data)) j))"
proof -
  define n where "n = length data"
  have a0: "0 \<le> window - 1" using assms by simp
  have init: "johansen_ok n (johansen_init n)" by (simp add: johansen_ok_def johansen_init_def)
  have keep: "johansen_ok n (johansen_step coint_johansen data window det_order k_ar_diff i s) \<and>
      (\<forall>j. j \<noteq> nat i \<longrightarrow>
         johansen_row (johansen_step coint_johansen data window det_order k_ar_diff i s) j = johansen_row s j)"
    if "window - 1 \<le> i" "i < int n" "johansen_ok n s" for i s
    using that a0 johansen_step_ok[OF that(3)] johansen_step_keep[of i n s] by simp
  have local: "johansen_row (johansen_step coint_johansen data window det_order k_ar_diff i s) (nat i)
       = johansen_row (johansen_step coint_johansen data window det_order k_ar_diff i s2) (nat i)"
    if "window - 1 \<le> i" "i < int n" "johansen_ok n s" "johansen_ok n s2"
      "johansen_row s (nat i) = johansen_row s2 (nat i)" for i s s2
    using that a0 by (intro johansen_step_local[of i n]) simp_all
  have "\<exists>r. for_range (window - 1) (int n)
        (\<lambda>i s. Inr (johansen_step coint_johansen data window det_order k_ar_diff i s)) (johansen_init n) = Inr r \<and>
      johansen_ok n r \<and>
      (\<forall>j. johansen_row r j = (if window - 1 \<le> int j \<and> int j < int n
         then johansen_row (johansen_step coint_johansen data window det_order k_ar_diff (int j) (johansen_init n)) j
         else johansen_row (johansen_init n) j))"
    by (rule for_range_rows_step[where ok = "johansen_ok n" and row = johansen_row, OF a0 init keep local])
  then show ?thesis unfolding n_def by (simp add: compute_johansen_def Let_def)
qed

section \<open>Warm-up rows and lengths\<close>

lemma window_at_slice:
  "0 < window \<Longrightarrow> window - 1 \<le> int t \<Longrightarrow> t < length xs \<Longrightarrow>
   window_at xs window t = window_slice xs (nat window) t"
  using py_slice_window_slice[of window "int t" xs] by (simp add: window_at_def)

lemma for_range_partial:
  assumes "I st" and "\<And>j s s'. I s \<Longrightarrow> body j s = Inr s' \<Longrightarrow> I s'"
    and "for_range a b body st = Inr r"
  shows "I r"
  using assms
proof (induction a b body st rule: for_range.induct)
  case (1 i stop body st)
  show ?case
  proof (cases "i < stop")
    case False
    then show ?thesis using 1(2,4) by (subst (asm) for_range.simps) simp
  next
    case True
    from 1(4) True obtain s' where s': "body i st = Inr s'" "for_range (i + 1) stop body s' = Inr r"
      by (subst (asm) for_range.simps) (auto split: sum.splits)
    have "I s'" using 1(3)[OF 1(2) s'(1)] .
    then show ?thesis using 1(1)[OF True s'(1) _ _ s'(2)] 1(3) by blast
  qed
qed

lemma py_set_upd: "py_set xs i v = Inr ys \<Longrightarrow> \<exists>j. ys = xs[j := v]"
  by (auto simp: py_set_def split: sum.splits)

lemma half_life_step_ok:
  "half_life_ok n st \<Longrightarrow> half_life_step series window i st = Inr st' \<Longrightarrow> half_life_ok n st'"
  by (auto simp: half_life_step_def bind_err_def Let_def half_life_ok_def
      split: sum.splits if_splits dest!: py_set_upd)

lemma half_life_warm_up:
  assumes "compute_half_life_ar1 series window = Inr r"
  shows "half_life_ok (length series) r \<and>
     (\<forall>t. t < length series \<and> int t < window - 1 \<longrightarrow> half_life_row r t = (nan, nan, 0))"
proof -
  have init: "half_life_ok (length series) (half_life_init (length series))"
    by (simp add: half_life_ok_def half_life_init_def)
  have run: "for_range (window - 1) (int (length series)) (half_life_step series window)
      (half_life_init (length series)) = Inr r"
    using assms by (simp add: compute_half_life_ar1_def Let_def)
  have ok: "half_life_ok (length series) r"
    by (rule for_range_partial[where I = "half_life_ok (length series)", OF init _ run])
       (rule half_life_step_ok)
  have "half_life_row r t = (nan, nan, 0)" if "t < length series" "int t < window - 1" for t
  proof -
    have w: "0 < window" using that(2) by simp
    obtain r' where r': "compute_half_life_ar1 series window = Inr r'"
      "\<forall>j. half_life_row r' j =
        (if window - 1 \<le> int j \<and> j < length series
         then half_life_of (window_slice series (nat window) j) window (nan, nan, 0)
         else (replicate (length series) nan ! j, replicate (length series) nan ! j,
               replicate (length series) 0 ! j))"
      using half_life_rows[OF w, of series] by blast
    have "r' = r" using assms r'(1) by simp
    then show ?thesis using r'(2)[rule_format, of t] that by simp
  qed
  then show ?thesis using ok by blast
qed

lemma rolling_adf_warm_up:
  "\<exists>r. compute_rolling_adf adfuller series window maxlag regression = Inr r \<and>
     adf_ok (length series) r \<and>
     (\<forall>t. t < length series \<and> int t < window - 1 \<longrightarrow> adf_row r t = (nan, nan, nan, nan, nan, 0))"
proof (cases "0 < window")
  case True
  obtain r where r: "compute_rolling_adf adfuller series window maxlag regression = Inr r"
    "adf_ok (length series) r"
    "\<forall>j. adf_row r j =
        (if window - 1 \<le> int j \<and> j < length series
         then adf_row (rolling_adf_step adfuller series window maxlag regression (int j)
                 (adf_init (length series))) j
         else adf_row (adf_init (length series)) j)"
    using rolling_adf_rows[OF True] by blast
  have "adf_row r t = (nan, nan, nan, nan, nan, 0)" if "t < length series" "int t < window - 1" for t
    using r(3)[rule_format, of t] that by (simp add: adf_row_def adf_init_def)
  then show ?thesis using r(1,2) by blast
next
  case False
  obtain r where r: "compute_rolling_adf adfuller series window maxlag regression = Inr r"
    "adf_ok (length series) r"
    using rolling_adf_total by blast
  have "\<forall>t. t < length series \<and> int t < window - 1 \<longrightarrow> adf_row r t = (nan, nan, nan, nan, nan, 0)"
    using False by simp
  then show ?thesis using r by blast
qed

lemma engle_granger_warm_up:
  "\<exists>r. compute_engle_granger ols coint y x window = Inr r \<and> eg_ok (length y) r \<and>
     (\<forall>t. t < length y \<and> int t < window - 1 \<longrightarrow>
        eg_row r t = (nan, nan, nan, nan, nan, nan, nan, nan, 0))"
proof (cases "0 < window")
  case True
  obtain r where r: "compute_engle_granger ols coint y x window = Inr r"
    "eg_ok (length y) r"
    "\<forall>j. eg_row r j =
        (if window - 1 \<le> int j \<and> j < length y
         then eg_row (engle_granger_step ols coint y x window (int j) (eg_init (length y))) j
         else eg_row (eg_init (length y)) j)"
    using engle_granger_rows[OF True] by blast
  have "eg_row r t = (nan, nan, nan, nan, nan, nan, nan, nan, 0)"
    if "t < length y" "int t < window - 1" for t
    using r(3)[rule_format, of t] that by (simp add: eg_row_def eg_init_def)
  then show ?thesis using r(1,2) by blast
next
  case False
  obtain r where r: "compute_engle_granger ols coint y x window = Inr r" "eg_ok (length y) r"
    using engle_granger_total by blast
  have "\<forall>t. t < length y \<and> int t < window - 1 \<longrightarrow>
      eg_row r t = (nan, nan, nan, nan, nan, nan, nan, nan, 0)"
    using False by simp
  then show ?thesis using r by blast
qed

lemma johansen_warm_up:
  "\<exists>r. compute_johansen coint_johansen data window det_order k_ar_diff = Inr r \<and>
     johansen_ok (length data) r \<and>
     (\<forall>t. t < length data \<and> int t < window - 1 \<longrightarrow>
        johansen_row r t = (nan, nan, nan, nan, nan, nan, nan))"
proof (cases "0 < window")
  case True
  obtain r where r: "compute_johansen coint_johansen data window det_order k_ar_diff = Inr r"
    "johansen_ok (length data) r"
    "\<forall>j. johansen_row r j =
        (if window - 1 \<le> int j \<and> j < length data
         then johansen_row (johansen_step coint_johansen data window det_order k_ar_diff (int j)
                (johansen_init (length data))) j
         else johansen_row (johansen_init (length data)) j)"
    using johansen_rows[OF True] by blast
  have "johansen_row r t = (nan, nan, nan, nan, nan, nan, nan)"
    if "t < length data" "int t < window - 1" for t
    using r(3)[rule_format, of t] that by (simp add: johansen_row_def johansen_init_def)
  then show ?thesis using r(1,2) by blast
next
  case False
  obtain r where r: "compute_johansen coint_johansen data window det_order k_ar_diff = Inr r"
    "johansen_ok (length data) r"
    using johansen_total by blast
  have "\<forall>t. t < length data \<and> int t < window - 1 \<longrightarrow>
      johansen_row r t = (nan, nan, nan, nan, nan, nan, nan)"
    using False by simp
  then show ?thesis using r by blast
qed

lemma frac_diff_warm_up:
  "\<exists>res. frac_diff_manual series d threshold = Inr res \<and> length res = length series \<and>
     (\<forall>t. t < length series \<and> int t < int (length (compute_ffd_weights d threshold 10000)) - 1 \<longrightarrow>
        res ! t = nan)"
proof -
  obtain res where res: "frac_diff_manual series d threshold = Inr res"
    "length res = length series"
    "\<forall>j. res ! j =
        (if int (length (compute_ffd_weights d threshold 10000)) - 1 \<le> int j \<and> j < length series
         then Some (\<Sum>k<length (compute_ffd_weights d threshold 10000).
                compute_ffd_weights d threshold 10000 ! k * series ! (j - k))
         else replicate (length series) nan ! j)"
    using frac_diff_manual_rows[of series d threshold] by blast
  have "res ! t = nan"
    if "t < length series" "int t < int (length (compute_ffd_weights d threshold 10000)) - 1" for t
    using res(3)[rule_format, of t] that by simp
  then show ?thesis using res(1,2) by blast
qed

text \<open>
  Claim C8. The filter returns an array as long as the series, NaN at every index below
  \<open>len(weights) - 1\<close>. The four rolling computations return frames whose columns are as
  long as the series, and at every index below \<open>window - 1\<close> each value column is NaN
  (the integer flag column, which cannot hold NaN, is 0 there). The ADF, Engle-Granger
  and Johansen loops return for every window and every collaborator; the half-life
  loop returns for every positive window, and whenever it returns the same holds.
\<close>

theorem warm_up_sentinel:
  "(\<exists>res. frac_diff_manual series d threshold = Inr res \<and> length res = length series \<and>
      (\<forall>t. t < length series \<and> int t < int (length (compute_ffd_weights d threshold 10000)) - 1 \<longrightarrow>
         res ! t = nan)) \<and>
   (0 < window \<longrightarrow> (\<exists>r. compute_half_life_ar1 series window = Inr r)) \<and>
   (\<forall>r. compute_half_life_ar1 series window = Inr r \<longrightarrow>
      half_life_ok (length series) r \<and>
      (\<forall>t. t < length series \<and> int t < window - 1 \<longrightarrow> half_life_row r t = (nan, nan, 0))) \<and>
   (\<exists>r. compute_rolling_adf adfuller series window maxlag regression = Inr r \<and>
      adf_ok (length series) r \<and>
      (\<forall>t. t < length series \<and> int t < window - 1 \<longrightarrow>
         adf_row r t = (nan, nan, nan, nan, nan, 0))) \<and>
   (\<exists>r. compute_engle_granger ols coint y x window = Inr r \<and> eg_ok (length y) r \<and>
      (\<forall>t. t < length y \<and> int t < window - 1 \<longrightarrow>
         eg_row r t = (nan, nan, nan, nan, nan, nan, nan, nan, 0))) \<and>
   (\<exists>r. compute_johansen coint_johansen data window det_order k_ar_diff = Inr r \<and>
      johansen_ok (length data) r \<and>
      (\<forall>t. t < length data \<and> int t < window - 1 \<longrightarrow>
         johansen_row r t = (nan, nan, nan, nan, nan, nan, nan)))"
proof -
  have "0 < window \<longrightarrow> (\<exists>r. compute_half_life_ar1 series window = Inr r)"
    using half_life_rows[of window series] by blast
  moreover have "\<forall>r. compute_half_life_ar1 series window = Inr r \<longrightarrow>
      half_life_ok (length series) r \<and>
      (\<forall>t. t < length series \<and> int t < window - 1 \<longrightarrow> half_life_row r t = (nan, nan, 0))"
    using half_life_warm_up by blast
  ultimately show ?thesis
    using frac_diff_warm_up[of series d threshold]
      rolling_adf_warm_up[of adfuller series window maxlag regression]
      engle_granger_warm_up[of ols coint y x window]
      johansen_warm_up[of coint_johansen data window det_order k_ar_diff]
    by blast
qed

theorem warm_up_sentinel_witness:
  "(\<exists>res. frac_diff_manual [1, 2, 4] 1 (1 / 100000) = Inr res \<and> length res = 3 \<and> res ! 0 = nan) \<and>
   (\<exists>r. compute_half_life_ar1 [1, 2, 4] 3 = Inr r \<and> half_life_ok 3 r \<and>
        half_life_row r 1 = (nan, nan, 0)) \<and>
   (\<exists>r. compute_rolling_adf adfuller_stub [1, 2, 4] 3 1 ''c'' = Inr r \<and> adf_ok 3 r \<and>
        adf_row r 1 = (nan, nan, nan, nan, nan, 0)) \<and>
   (\<exists>r. compute_engle_granger ols_closed_form coint_raises [1, 2, 4] [1, 2, 3] 3 = Inr r \<and> eg_ok 3 r \<and>
        eg_row r 1 = (nan, nan, nan, nan, nan, nan, nan, nan, 0)) \<and>
   (\<exists>r. compute_johansen johansen_fixed [[1, 1], [2, 2], [4, 3]] 3 0 1 = Inr r \<and> johansen_ok 3 r \<and>
        johansen_row r 1 = (nan, nan, nan, nan, nan, nan, nan))"
proof -
  note w = warm_up_sentinel[where series = "[1, 2, 4]" and d = 1 and threshold = "1 / 100000"
      and window = 3 and adfuller = adfuller_stub and maxlag = 1 and regression = "''c''"
      and ols = ols_closed_form and coint = coint_raises and y = "[1, 2, 4]" and x = "[1, 2, 3]"
      and coint_johansen = johansen_fixed and data = "[[1, 1], [2, 2], [4, 3]]"
      and det_order = 0 and k_ar_diff = 1]
  have l: "length [1, 2, 4 :: real] = 3" "length [[1, 1], [2, 2], [4, 3 :: real]] = 3" by simp_all
  have c1: "(0::nat) < 3 \<and> int 0 < int (length [1, - 1 :: real]) - 1" by simp
  have c2: "(1::nat) < 3 \<and> int 1 < (3::int) - 1" by simp
  have c3: "(0::int) < 3" by simp
  note u = w[unfolded l ffd_weights_d1]
  have p1: "\<exists>res. frac_diff_manual [1, 2, 4] 1 (1 / 100000) = Inr res \<and> length res = 3 \<and> res ! 0 = nan"
    using u[THEN conjunct1] c1 by blast
  have p2: "\<exists>r. compute_half_life_ar1 [1, 2, 4] 3 = Inr r \<and> half_life_ok 3 r \<and>
        half_life_row r 1 = (nan, nan, 0)"
    using u[THEN conjunct2, THEN conjunct1] u[THEN conjunct2, THEN conjunct2, THEN conjunct1] c2 c3
    by blast
  have p3: "\<exists>r. compute_rolling_adf adfuller_stub [1, 2, 4] 3 1 ''c'' = Inr r \<and> adf_ok 3 r \<and>
        adf_row r 1 = (nan, nan, nan, nan, nan, 0)"
    using u[THEN conjunct2, THEN conjunct2, THEN conjunct2, THEN conjunct1] c2 by blast
  have p4: "\<exists>r. compute_engle_granger ols_closed_form coint_raises [1, 2, 4] [1, 2, 3] 3 = Inr r \<and>
        eg_ok 3 r \<and> eg_row r 1 = (nan, nan, nan, nan, nan, nan, nan, nan, 0)"
    using u[THEN conjunct2, THEN conjunct2, THEN conjunct2, THEN conjunct2, THEN conjunct1] c2
    by blast
  have p5: "\<exists>r. compute_johansen johansen_fixed [[1, 1], [2, 2], [4, 3]] 3 0 1 = Inr r \<and>
        johansen_ok 3 r \<and> johansen_row r 1 = (nan, nan, nan, nan, nan, nan, nan)"
    using u[THEN conjunct2, THEN conjunct2, THEN conjunct2, THEN conjunct2, THEN conjunct2] c2
    by blast
  show ?thesis using p1 p2 p3 p4 p5 by blast
qed

section \<open>The rank decision\<close>

lemma johansen_row_at:
  assumes "0 < window" "window - 1 \<le> int t" "t < length data"
  shows "\<exists>r. compute_johansen coint_johansen data window det_order k_ar_diff = Inr r \<and>
     johansen_row r t = johansen_row (johansen_step coint_johansen data window det_order k_ar_diff
        (int t) (johansen_init (length data))) t"
proof -
  obtain r where r: "compute_johansen coint_johansen data window det_order k_ar_diff = Inr r"
    "\<forall>j. johansen_row r j =
        (if window - 1 \<le> int j \<and> j < length data
         then johansen_row (johansen_step coint_johansen data window det_order k_ar_diff (int j)
                (johansen_init (length data))) j
         else johansen_row (johansen_init (length data)) j)"
    using johansen_rows[OF assms(1)] by blast
  then show ?thesis using r(2)[rule_format, of t] assms by simp
qed

text \<open>The rank that one iteration stores when the collaborator returns.\<close>

lemma johansen_step_rank:
  assumes "t < n" "coint_johansen (window_at data window t) det_order k_ar_diff = Inr res"
    "johansen_shape n_vars res"
  shows "ranks (johansen_step coint_johansen data window det_order k_ar_diff (int t) (johansen_init n)) ! t =
     (if 2 \<le> n_vars
      then Some (if f_lt (cvt res ! 0 ! 1) (lr1 res ! 0)
                 then (if f_lt (cvt res ! 1 ! 1) (lr1 res ! 1) then 2 else 1) else 0)
      else nan)"
proof (cases "2 \<le> n_vars")
  case True
  have len: "length (eig res) = n_vars" "length (lr1 res) = n_vars" "length (lr2 res) = n_vars"
    "length (cvt res) = n_vars" "list_all (\<lambda>row. length row = 3) (cvt res)"
    using assms(3) by (simp_all add: johansen_shape_def)
  have rows: "length (cvt res ! 0) = 3" "length (cvt res ! 1) = 3"
    using len(4,5) True by (simp_all add: list_all_length)
  have g: "py_get (eig res) 0 = Inr (eig res ! 0)" "py_get (eig res) 1 = Inr (eig res ! 1)"
    "py_get (lr1 res) 0 = Inr (lr1 res ! 0)" "py_get (lr1 res) 1 = Inr (lr1 res ! 1)"
    "py_get (lr2 res) 0 = Inr (lr2 res ! 0)" "py_get (lr2 res) 1 = Inr (lr2 res ! 1)"
    "py_get2 (cvt res) 0 1 = Inr (cvt res ! 0 ! 1)" "py_get2 (cvt res) 1 1 = Inr (cvt res ! 1 ! 1)"
    using True len rows by (simp_all add: py_get2_def bind_err_def py_get_nonneg)
  show ?thesis
    using True assms(1,2)
    by (simp add: johansen_step_def window_at_def[symmetric] attempt_def g store_rank_def
        py_set_nonneg johansen_init_def Let_def)
next
  case False
  then have "n_vars = 0 \<or> n_vars = 1" by linarith
  then show ?thesis
  proof
    assume "n_vars = 0"
    then have "py_get (eig res) 0 = Inl IndexError"
      using assms(3) by (simp add: johansen_shape_def py_get_def py_index_def)
    then show ?thesis
      using False assms(1,2)
      by (simp add: johansen_step_def window_at_def[symmetric] attempt_def johansen_init_def Let_def)
  next
    assume n1: "n_vars = 1"
    then have "py_get (eig res) 0 = Inr (eig res ! 0)" "py_get (eig res) 1 = Inl IndexError"
      using assms(3) by (simp_all add: johansen_shape_def py_get_def py_index_def)
    then show ?thesis
      using False assms(1,2)
      by (simp add: johansen_step_def window_at_def[symmetric] attempt_def johansen_init_def Let_def
          py_set_nonneg)
  qed
qed

lemma f_le_not_lt: "f_le a b \<Longrightarrow> \<not> f_lt b a"
  by (auto simp: f_le_def f_lt_def split: option.splits)

text \<open>
  Claim C9. At every window of a positive-window run where \<^verbatim>\<open>coint_johansen\<close> returns
  statistics for \<open>n_vars\<close> series (one trace statistic and one row of critical values per
  series), the rank stored for the window, when \<open>n_vars \<ge> 2\<close>, is 0 if
  \<open>lr1[0] \<le> cvt[0][1]\<close>, 1 if \<open>lr1[0] > cvt[0][1]\<close> and \<open>lr1[1] \<le> cvt[1][1]\<close>, and 2 if both
  statistics exceed their 5\% critical values (column 1); and whatever \<open>n_vars\<close> is, a
  rank that is stored does not exceed it (with fewer than two series the read of the
  second eigenvalue raises before any rank is stored).
\<close>

theorem rank_decision:
  assumes "0 < window" "window - 1 \<le> int t" "t < length data"
    and "coint_johansen (window_at data window t) det_order k_ar_diff = Inr res"
    and "johansen_shape n_vars res"
  shows "\<exists>r. compute_johansen coint_johansen data window det_order k_ar_diff = Inr r \<and>
     (2 \<le> n_vars \<longrightarrow>
        (f_le (lr1 res ! 0) (cvt res ! 0 ! 1) \<longrightarrow> ranks r ! t = Some 0) \<and>
        (f_lt (cvt res ! 0 ! 1) (lr1 res ! 0) \<and> f_le (lr1 res ! 1) (cvt res ! 1 ! 1) \<longrightarrow>
           ranks r ! t = Some 1) \<and>
        (f_lt (cvt res ! 0 ! 1) (lr1 res ! 0) \<and> f_lt (cvt res ! 1 ! 1) (lr1 res ! 1) \<longrightarrow>
           ranks r ! t = Some 2)) \<and>
     (\<forall>v. ranks r ! t = Some v \<longrightarrow> v \<le> real n_vars)"
proof -
  obtain r where r: "compute_johansen coint_johansen data window det_order k_ar_diff = Inr r"
    "johansen_row r t = johansen_row (johansen_step coint_johansen data window det_order k_ar_diff
        (int t) (johansen_init (length data))) t"
    using johansen_row_at[OF assms(1-3)] by blast
  have rk: "ranks r ! t =
     (if 2 \<le> n_vars
      then Some (if f_lt (cvt res ! 0 ! 1) (lr1 res ! 0)
                 then (if f_lt (cvt res ! 1 ! 1) (lr1 res ! 1) then 2 else 1) else 0)
      else nan)"
    using r(2) assms(3,4,5)
      johansen_step_rank[of t "length data" coint_johansen data window det_order k_ar_diff res n_vars]
    by (simp add: johansen_row_def)
  have a: "2 \<le> n_vars \<longrightarrow>
        (f_le (lr1 res ! 0) (cvt res ! 0 ! 1) \<longrightarrow> ranks r ! t = Some 0) \<and>
        (f_lt (cvt res ! 0 ! 1) (lr1 res ! 0) \<and> f_le (lr1 res ! 1) (cvt res ! 1 ! 1) \<longrightarrow>
           ranks r ! t = Some 1) \<and>
        (f_lt (cvt res ! 0 ! 1) (lr1 res ! 0) \<and> f_lt (cvt res ! 1 ! 1) (lr1 res ! 1) \<longrightarrow>
           ranks r ! t = Some 2)"
    using rk f_le_not_lt[of "lr1 res ! 0" "cvt res ! 0 ! 1"] f_le_not_lt[of "lr1 res ! 1" "cvt res ! 1 ! 1"]
    by auto
  have b: "\<forall>v. ranks r ! t = Some v \<longrightarrow> v \<le> real n_vars"
    using rk by (auto split: if_splits)
  show ?thesis using r(1) a b by blast
qed

theorem rank_decision_witness:
  "\<exists>r. compute_johansen johansen_fixed [[1, 1], [2, 2], [4, 3]] 3 0 1 = Inr r \<and> ranks r ! 2 = Some 1"
proof -
  define res where "res = \<lparr>eig = [Some (1 / 2), Some (1 / 10)], lr1 = [Some 20, Some (2::real)],
        lr2 = [Some 18, Some 2], cvt = [[Some 13, Some 15, Some 20], [Some 3, Some (4::real), Some 7]]\<rparr>"
  have h: "(0::int) < 3" "(3::int) - 1 \<le> int 2" "2 < length [[1, 1], [2, 2], [4, 3 :: real]]"
    by simp_all
  have c: "johansen_fixed (window_at [[1, 1], [2, 2], [4, 3]] 3 2) 0 1 = Inr res"
    by (simp add: johansen_fixed_def res_def window_at_def py_slice_def)
  have s: "johansen_shape 2 res" by (simp add: johansen_shape_def res_def)
  have t: "f_lt (cvt res ! 0 ! 1) (lr1 res ! 0) \<and> f_le (lr1 res ! 1) (cvt res ! 1 ! 1)"
    by (simp add: res_def f_lt_def f_le_def)
  have n: "(2::nat) \<le> 2" by simp
  from rank_decision[where coint_johansen = johansen_fixed and res = res and n_vars = 2, OF h c s] t n
  show ?thesis by blast
qed

section \<open>Engle-Granger: what the cointegration test is called with\<close>

lemma engle_granger_row_at:
  assumes "0 < window" "window - 1 \<le> int t" "t < length y"
  shows "\<exists>r. compute_engle_granger ols coint y x window = Inr r \<and>
     eg_row r t = eg_row (engle_granger_step ols coint y x window (int t) (eg_init (length y))) t"
proof -
  obtain r where r: "compute_engle_granger ols coint y x window = Inr r"
    "\<forall>j. eg_row r j =
        (if window - 1 \<le> int j \<and> j < length y
         then eg_row (engle_granger_step ols coint y x window (int j) (eg_init (length y))) j
         else eg_row (eg_init (length y)) j)"
    using engle_granger_rows[OF assms(1)] by blast
  then show ?thesis using r(2)[rule_format, of t] assms by simp
qed

lemma engle_granger_step_success:
  assumes "t < length y" "t < length x"
    and "ols (window_at y window t) (window_at x window t) = Inr params" "2 \<le> length params"
    and "coint (window_at y window t) (window_at x window t) ''c'' 1 = Inr cr"
    and "3 \<le> length (coint_crit cr)"
  shows "eg_row (engle_granger_step ols coint y x window (int t) (eg_init (length y))) t =
     (params ! 1, params ! 0,
      f_sub (f_sub (Some (y ! t)) (params ! 0)) (f_mul (params ! 1) (Some (x ! t))),
      coint_t cr, coint_pvalue cr, coint_crit cr ! 0, coint_crit cr ! 1, coint_crit cr ! 2,
      if f_lt (coint_pvalue cr) (Some (5 / 100)) then 1 else 0)"
proof -
  have ne: "params \<noteq> []" "coint_crit cr \<noteq> []" using assms(4,6) by auto
  have g: "py_get params 0 = Inr (params ! 0)" "py_get params 1 = Inr (params ! 1)"
    "py_get y (int t) = Inr (y ! t)" "py_get x (int t) = Inr (x ! t)"
    "py_get (coint_crit cr) 0 = Inr (coint_crit cr ! 0)"
    "py_get (coint_crit cr) 1 = Inr (coint_crit cr ! 1)"
    "py_get (coint_crit cr) 2 = Inr (coint_crit cr ! 2)"
    using assms ne by (simp_all add: py_get_nonneg)
  show ?thesis
    using assms(1,3,5)
    by (simp add: engle_granger_step_def window_at_def[symmetric] attempt_def g py_set_nonneg
        eg_init_def eg_row_def Let_def)
qed

lemma eg_step_example_echo:
  "engle_granger_step ols_closed_form coint_echo [1, 2, 4] [1, 2, 3] 3 2 (eg_init 3) =
     \<lparr>hedge_ratios = [nan, nan, Some (3 / 2)], intercepts = [nan, nan, Some (- (2 / 3))],
      spreads = [nan, nan, Some (1 / 6)], eg_adf_stats = [nan, nan, Some 7],
      eg_p_values = [nan, nan, Some 6], eg_critical_1pct = [nan, nan, Some (- 4)],
      eg_critical_5pct = [nan, nan, Some (- 3)], eg_critical_10pct = [nan, nan, Some (- 2)],
      is_cointegrated = [0, 0, 0]\<rparr>"
  by (simp add: engle_granger_step_def attempt_def
      eg_init_def py_slice_def py_get_def py_set_def py_index_def f_sub_def f_mul_def f_lt_def
      ols_closed_form_def coint_echo_def Let_def numeral_3_eq_3)

text \<open>
  Claim C5 as stated fails. Run with the least-squares regression and the collaborator
  that reports the sums of its two arguments, the window \<open>y = [1, 2, 4]\<close>, \<open>x = [1, 2, 3]\<close>
  gets the statistic 7 and the p-value 6: the test was called with \<open>y_win\<close> and \<open>x_win\<close>.
  The residual spread of the regression (\<open>alpha = -2/3\<close>, \<open>beta = 3/2\<close>) over the window is
  \<open>[1/6, -1/3, 1/6]\<close>, which sums to 0 and is never passed on; only its last value is
  stored, in the \<^verbatim>\<open>spread\<close> column.
\<close>

theorem coint_input_counterexample:
  "compute_engle_granger ols_closed_form coint_echo [1, 2, 4] [1, 2, 3] 3 =
     Inr \<lparr>hedge_ratios = [nan, nan, Some (3 / 2)], intercepts = [nan, nan, Some (- (2 / 3))],
          spreads = [nan, nan, Some (1 / 6)], eg_adf_stats = [nan, nan, Some 7],
          eg_p_values = [nan, nan, Some 6], eg_critical_1pct = [nan, nan, Some (- 4)],
          eg_critical_5pct = [nan, nan, Some (- 3)], eg_critical_10pct = [nan, nan, Some (- 2)],
          is_cointegrated = [0, 0, 0]\<rparr> \<and>
   residual_spread (- (2 / 3)) (3 / 2) [1, 2, 4] [1, 2, 3] = [1 / 6, - (1 / 3), 1 / 6] \<and>
   sum_list (residual_spread (- (2 / 3)) (3 / 2) [1, 2, 4] [1, 2, 3]) \<noteq> 7"
proof -
  have fr: "for_range (3 - 1) (int 3)
      (\<lambda>i st. Inr (engle_granger_step ols_closed_form coint_echo [1, 2, 4] [1, 2, 3] 3 i st))
      (eg_init 3)
    = Inr (engle_granger_step ols_closed_form coint_echo [1, 2, 4] [1, 2, 3] 3 2 (eg_init 3))"
    by (simp add: for_range.simps[of 2] for_range_empty)
  have l: "length [1, 2, 4 :: real] = 3" by simp
  have "compute_engle_granger ols_closed_form coint_echo [1, 2, 4] [1, 2, 3] 3
    = Inr (engle_granger_step ols_closed_form coint_echo [1, 2, 4] [1, 2, 3] 3 2 (eg_init 3))"
    unfolding compute_engle_granger_def Let_def l by (rule fr)
  then show ?thesis
    by (simp add: eg_step_example_echo residual_spread_def)
qed

text \<open>
  Claim C5, amended. At every window of a positive-window run where the regression
  returns at least two parameters and \<^verbatim>\<open>coint\<close>, called with the window slices \<open>y_win\<close>
  and \<open>x_win\<close> themselves (and \<^verbatim>\<open>trend="c"\<close>, \<^verbatim>\<open>maxlag=1\<close>), returns a statistic, a p-value and
  three critical values, these become the test columns of the window's row, and the flag
  is 1 exactly when the p-value is below 0.05. The regression parameters only fill the
  intercept, hedge-ratio and spread columns.
\<close>

theorem coint_called_with_windows:
  assumes "0 < window" "window - 1 \<le> int t" "t < length y" "t < length x"
    and "ols (window_at y window t) (window_at x window t) = Inr params" "2 \<le> length params"
    and "coint (window_at y window t) (window_at x window t) ''c'' 1 = Inr cr"
    and "3 \<le> length (coint_crit cr)"
  shows "\<exists>r. compute_engle_granger ols coint y x window = Inr r \<and>
     eg_adf_stats r ! t = coint_t cr \<and> eg_p_values r ! t = coint_pvalue cr \<and>
     eg_critical_1pct r ! t = coint_crit cr ! 0 \<and> eg_critical_5pct r ! t = coint_crit cr ! 1 \<and>
     eg_critical_10pct r ! t = coint_crit cr ! 2 \<and>
     is_cointegrated r ! t = (if f_lt (coint_pvalue cr) (Some (5 / 100)) then 1 else 0) \<and>
     intercepts r ! t = params ! 0 \<and> hedge_ratios r ! t = params ! 1 \<and>
     spreads r ! t = f_sub (f_sub (Some (y ! t)) (params ! 0)) (f_mul (params ! 1) (Some (x ! t)))"
proof -
  obtain r where r: "compute_engle_granger ols coint y x window = Inr r"
    "eg_row r t = eg_row (engle_granger_step ols coint y x window (int t) (eg_init (length y))) t"
    using engle_granger_row_at[OF assms(1-3)] by blast
  have "eg_row r t =
     (params ! 1, params ! 0,
      f_sub (f_sub (Some (y ! t)) (params ! 0)) (f_mul (params ! 1) (Some (x ! t))),
      coint_t cr, coint_pvalue cr, coint_crit cr ! 0, coint_crit cr ! 1, coint_crit cr ! 2,
      if f_lt (coint_pvalue cr) (Some (5 / 100)) then 1 else 0)"
    using r(2) assms(3-8)
      engle_granger_step_success[of t y x ols window params coint cr]
    by simp
  then show ?thesis using r(1) by (simp add: eg_row_def)
qed

theorem coint_called_with_windows_witness:
  "\<exists>r. compute_engle_granger ols_closed_form coint_echo [1, 2, 4] [1, 2, 3] 3 = Inr r \<and>
     eg_adf_stats r ! 2 = Some (sum_list [1, 2, 4]) \<and> eg_p_values r ! 2 = Some (sum_list [1, 2, 3]) \<and>
     eg_critical_5pct r ! 2 = Some (- 3) \<and> is_cointegrated r ! 2 = 0 \<and>
     intercepts r ! 2 = Some (- (2 / 3)) \<and> hedge_ratios r ! 2 = Some (3 / 2)"
proof -
  define cr where "cr = \<lparr>coint_t = Some (sum_list [1, 2, 4 :: real]),
      coint_pvalue = Some (sum_list [1, 2, 3 :: real]),
      coint_crit = [Some (- 4), Some (- 3), Some (- 2 :: real)]\<rparr>"
  have h: "(0::int) < 3" "(3::int) - 1 \<le> int 2" "2 < length [1, 2, 4 :: real]"
    "2 < length [1, 2, 3 :: real]"
    by simp_all
  have wy: "window_at [1, 2, 4 :: real] 3 2 = [1, 2, 4]"
    and wx: "window_at [1, 2, 3 :: real] 3 2 = [1, 2, 3]"
    by (simp_all add: window_at_def py_slice_def)
  have o: "ols_closed_form (window_at [1, 2, 4] 3 2) (window_at [1, 2, 3] 3 2)
      = Inr [Some (- (2 / 3)), Some (3 / 2)]"
    unfolding wy wx by (simp add: ols_closed_form_def Let_def)
  have l2: "2 \<le> length [Some (- (2 / 3)), Some (3 / 2 :: real)]" by simp
  have c: "coint_echo (window_at [1, 2, 4] 3 2) (window_at [1, 2, 3] 3 2) ''c'' 1 = Inr cr"
    unfolding wy wx by (simp add: coint_echo_def cr_def)
  have l3: "3 \<le> length (coint_crit cr)" by (simp add: cr_def)
  from coint_called_with_windows[where ols = ols_closed_form and coint = coint_echo
      and params = "[Some (- (2 / 3)), Some (3 / 2)]" and cr = cr, OF h o l2 c l3]
  obtain r where r: "compute_engle_granger ols_closed_form coint_echo [1, 2, 4] [1, 2, 3] 3 = Inr r"
    "eg_adf_stats r ! 2 = coint_t cr" "eg_p_values r ! 2 = coint_pvalue cr"
    "eg_critical_5pct r ! 2 = coint_crit cr ! 1"
    "is_cointegrated r ! 2 = (if f_lt (coint_pvalue cr) (Some (5 / 100)) then 1 else 0)"
    "intercepts r ! 2 = [Some (- (2 / 3)), Some (3 / 2)] ! 0"
    "hedge_ratios r ! 2 = [Some (- (2 / 3)), Some (3 / 2)] ! 1"
    by blast
  show ?thesis
    by (rule exI[of _ r]) (simp add: r cr_def f_lt_def)
qed

section \<open>Failure of a collaborator on one window\<close>

lemma rolling_adf_row_at:
  assumes "0 < window"
  shows "\<exists>r. compute_rolling_adf adfuller series window maxlag regression = Inr r \<and>
     (\<forall>t. adf_row r t =
        (if window - 1 \<le> int t \<and> t < length series
         then adf_row (rolling_adf_step adfuller series window maxlag regression (int t)
                 (adf_init (length series))) t
         else adf_row (adf_init (length series)) t))"
  using rolling_adf_rows[OF assms] by blast

lemma rolling_adf_step_raises:
  "adfuller (window_at series window t) maxlag regression = Inl e \<Longrightarrow>
   rolling_adf_step adfuller series window maxlag regression (int t) st = st"
  by (simp add: rolling_adf_step_def window_at_def[symmetric] attempt_def)

lemma rolling_adf_step_cong:
  "adfuller' (window_at series window t) maxlag regression
     = adfuller (window_at series window t) maxlag regression \<Longrightarrow>
   rolling_adf_step adfuller' series window maxlag regression (int t) st
     = rolling_adf_step adfuller series window maxlag regression (int t) st"
  by (simp add: rolling_adf_step_def window_at_def[symmetric])

lemma johansen_step_raises:
  "coint_johansen (window_at data window t) det_order k_ar_diff = Inl e \<Longrightarrow>
   johansen_step coint_johansen data window det_order k_ar_diff (int t) st = st"
  by (simp add: johansen_step_def window_at_def[symmetric] attempt_def)

lemma johansen_step_cong:
  "coint_johansen' (window_at data window t) det_order k_ar_diff
     = coint_johansen (window_at data window t) det_order k_ar_diff \<Longrightarrow>
   johansen_step coint_johansen' data window det_order k_ar_diff (int t) st
     = johansen_step coint_johansen data window det_order k_ar_diff (int t) st"
  by (simp add: johansen_step_def window_at_def[symmetric])

lemma engle_granger_step_ols_raises:
  "ols (window_at y window t) (window_at x window t) = Inl e \<Longrightarrow>
   engle_granger_step ols coint y x window (int t) st = st"
  by (simp add: engle_granger_step_def window_at_def[symmetric] attempt_def)

lemma engle_granger_step_cong:
  "ols' (window_at y window t) (window_at x window t) = ols (window_at y window t) (window_at x window t) \<Longrightarrow>
   coint' (window_at y window t) (window_at x window t) ''c'' 1
     = coint (window_at y window t) (window_at x window t) ''c'' 1 \<Longrightarrow>
   engle_granger_step ols' coint' y x window (int t) st
     = engle_granger_step ols coint y x window (int t) st"
  by (simp add: engle_granger_step_def window_at_def[symmetric])

text \<open>
  When the cointegration test raises, the iteration has written nothing into the test
  columns and the flag, whatever the regression did before.
\<close>

lemma engle_granger_step_coint_raises:
  assumes "coint (window_at y window t) (window_at x window t) ''c'' 1 = Inl e"
  shows "eg_adf_stats (engle_granger_step ols coint y x window (int t) st) = eg_adf_stats st \<and>
     eg_p_values (engle_granger_step ols coint y x window (int t) st) = eg_p_values st \<and>
     eg_critical_1pct (engle_granger_step ols coint y x window (int t) st) = eg_critical_1pct st \<and>
     eg_critical_5pct (engle_granger_step ols coint y x window (int t) st) = eg_critical_5pct st \<and>
     eg_critical_10pct (engle_granger_step ols coint y x window (int t) st) = eg_critical_10pct st \<and>
     is_cointegrated (engle_granger_step ols coint y x window (int t) st) = is_cointegrated st"
  using assms
  by (simp add: engle_granger_step_def window_at_def[symmetric] attempt_def Let_def
      split: sum.splits)

lemma eg_step_example_raises:
  "engle_granger_step ols_closed_form coint_raises [1, 2, 4] [1, 2, 3] 3 2 (eg_init 3) =
     \<lparr>hedge_ratios = [nan, nan, Some (3 / 2)], intercepts = [nan, nan, Some (- (2 / 3))],
      spreads = [nan, nan, Some (1 / 6)], eg_adf_stats = [nan, nan, nan],
      eg_p_values = [nan, nan, nan], eg_critical_1pct = [nan, nan, nan],
      eg_critical_5pct = [nan, nan, nan], eg_critical_10pct = [nan, nan, nan],
      is_cointegrated = [0, 0, 0]\<rparr>"
  by (simp add: engle_granger_step_def attempt_def
      eg_init_def py_slice_def py_get_def py_set_def py_index_def f_sub_def f_mul_def
      ols_closed_form_def coint_raises_def Let_def numeral_3_eq_3)

text \<open>
  Claim C3 as stated fails for Engle-Granger. On the window \<open>y = [1, 2, 4]\<close>,
  \<open>x = [1, 2, 3]\<close> the regression succeeds and the cointegration test raises (as
  \<^verbatim>\<open>coint\<close> with \<^verbatim>\<open>maxlag=1\<close> does on three observations); the hedge ratio, the intercept
  and the spread of that row are stored all the same, so the row is not entirely NaN.
\<close>

theorem failure_row_counterexample:
  "coint_raises (window_at [1, 2, 4] 3 2) (window_at [1, 2, 3] 3 2) ''c'' 1
     = Inl (Raised ''maxlag must be less than nobs/2 - 1 - ntrend'') \<and>
   compute_engle_granger ols_closed_form coint_raises [1, 2, 4] [1, 2, 3] 3 =
     Inr \<lparr>hedge_ratios = [nan, nan, Some (3 / 2)], intercepts = [nan, nan, Some (- (2 / 3))],
          spreads = [nan, nan, Some (1 / 6)], eg_adf_stats = [nan, nan, nan],
          eg_p_values = [nan, nan, nan], eg_critical_1pct = [nan, nan, nan],
          eg_critical_5pct = [nan, nan, nan], eg_critical_10pct = [nan, nan, nan],
          is_cointegrated = [0, 0, 0]\<rparr>"
proof -
  have fr: "for_range (3 - 1) (int 3)
      (\<lambda>i st. Inr (engle_granger_step ols_closed_form coint_raises [1, 2, 4] [1, 2, 3] 3 i st))
      (eg_init 3)
    = Inr (engle_granger_step ols_closed_form coint_raises [1, 2, 4] [1, 2, 3] 3 2 (eg_init 3))"
    by (simp add: for_range.simps[of 2] for_range_empty)
  have l: "length [1, 2, 4 :: real] = 3" by simp
  have "compute_engle_granger ols_closed_form coint_raises [1, 2, 4] [1, 2, 3] 3
    = Inr (engle_granger_step ols_closed_form coint_raises [1, 2, 4] [1, 2, 3] 3 2 (eg_init 3))"
    unfolding compute_engle_granger_def Let_def l by (rule fr)
  then show ?thesis
    by (simp add: eg_step_example_raises coint_raises_def)
qed

lemma rolling_adf_isolated:
  assumes "0 < window"
  shows "\<exists>r. compute_rolling_adf adfuller series window maxlag regression = Inr r \<and>
      (\<forall>t. window - 1 \<le> int t \<and> t < length series \<and>
           (\<exists>e. adfuller (window_at series window t) maxlag regression = Inl e) \<longrightarrow>
           adf_row r t = (nan, nan, nan, nan, nan, 0)) \<and>
      (\<forall>adfuller' t.
           adfuller' (window_at series window t) maxlag regression
             = adfuller (window_at series window t) maxlag regression \<longrightarrow>
           (\<exists>r'. compute_rolling_adf adfuller' series window maxlag regression = Inr r' \<and>
                 adf_row r' t = adf_row r t))"
proof -
  obtain r where r: "compute_rolling_adf adfuller series window maxlag regression = Inr r"
    "\<forall>t. adf_row r t =
        (if window - 1 \<le> int t \<and> t < length series
         then adf_row (rolling_adf_step adfuller series window maxlag regression (int t)
                 (adf_init (length series))) t
         else adf_row (adf_init (length series)) t)"
    using rolling_adf_row_at[OF assms] by blast
  have fail: "adf_row r t = (nan, nan, nan, nan, nan, 0)"
    if "window - 1 \<le> int t" "t < length series"
      "adfuller (window_at series window t) maxlag regression = Inl e" for t e
    using r(2)[rule_format, of t] that
    by (simp add: rolling_adf_step_raises adf_row_def adf_init_def)
  have iso: "\<exists>r'. compute_rolling_adf adfuller' series window maxlag regression = Inr r' \<and>
                 adf_row r' t = adf_row r t"
    if "adfuller' (window_at series window t) maxlag regression
             = adfuller (window_at series window t) maxlag regression" for adfuller' t
  proof -
    obtain r' where r': "compute_rolling_adf adfuller' series window maxlag regression = Inr r'"
      "\<forall>t. adf_row r' t =
        (if window - 1 \<le> int t \<and> t < length series
         then adf_row (rolling_adf_step adfuller' series window maxlag regression (int t)
                 (adf_init (length series))) t
         else adf_row (adf_init (length series)) t)"
      using rolling_adf_row_at[OF assms, of adfuller'] by blast
    have "adf_row r' t = adf_row r t"
      using r'(2)[rule_format, of t] r(2)[rule_format, of t] that
        rolling_adf_step_cong[where adfuller' = adfuller' and adfuller = adfuller and t = t
          and series = series and window = window and st = "adf_init (length series)"]
      by simp
    then show ?thesis using r'(1) by blast
  qed
  show ?thesis using r(1) fail iso by blast
qed

lemma johansen_isolated:
  assumes "0 < window"
  shows "\<exists>r. compute_johansen coint_johansen data window det_order k_ar_diff = Inr r \<and>
      (\<forall>t. window - 1 \<le> int t \<and> t < length data \<and>
           (\<exists>e. coint_johansen (window_at data window t) det_order k_ar_diff = Inl e) \<longrightarrow>
           johansen_row r t = (nan, nan, nan, nan, nan, nan, nan)) \<and>
      (\<forall>coint_johansen' t.
           coint_johansen' (window_at data window t) det_order k_ar_diff
             = coint_johansen (window_at data window t) det_order k_ar_diff \<longrightarrow>
           (\<exists>r'. compute_johansen coint_johansen' data window det_order k_ar_diff = Inr r' \<and>
                 johansen_row r' t = johansen_row r t))"
proof -
  obtain r where r: "compute_johansen coint_johansen data window det_order k_ar_diff = Inr r"
    "\<forall>t. johansen_row r t =
        (if window - 1 \<le> int t \<and> t < length data
         then johansen_row (johansen_step coint_johansen data window det_order k_ar_diff (int t)
                 (johansen_init (length data))) t
         else johansen_row (johansen_init (length data)) t)"
    using johansen_rows[OF assms] by blast
  have fail: "johansen_row r t = (nan, nan, nan, nan, nan, nan, nan)"
    if "window - 1 \<le> int t" "t < length data"
      "coint_johansen (window_at data window t) det_order k_ar_diff = Inl e" for t e
    using r(2)[rule_format, of t] that
    by (simp add: johansen_step_raises johansen_row_def johansen_init_def)
  have iso: "\<exists>r'. compute_johansen coint_johansen' data window det_order k_ar_diff = Inr r' \<and>
                 johansen_row r' t = johansen_row r t"
    if "coint_johansen' (window_at data window t) det_order k_ar_diff
             = coint_johansen (window_at data window t) det_order k_ar_diff" for coint_johansen' t
  proof -
    obtain r' where r': "compute_johansen coint_johansen' data window det_order k_ar_diff = Inr r'"
      "\<forall>t. johansen_row r' t =
        (if window - 1 \<le> int t \<and> t < length data
         then johansen_row (johansen_step coint_johansen' data window det_order k_ar_diff (int t)
                 (johansen_init (length data))) t
         else johansen_row (johansen_init (length data)) t)"
      using johansen_rows[OF assms, of coint_johansen'] by blast
    have "johansen_row r' t = johansen_row r t"
      using r'(2)[rule_format, of t] r(2)[rule_format, of t] that
        johansen_step_cong[where coint_johansen' = coint_johansen' and coint_johansen = coint_johansen
          and t = t and data = data and window = window and st = "johansen_init (length data)"]
      by simp
    then show ?thesis using r'(1) by blast
  qed
  show ?thesis using r(1) fail iso by blast
qed

lemma engle_granger_isolated:
  assumes "0 < window"
  shows "\<exists>r. compute_engle_granger ols coint y x window = Inr r \<and>
      (\<forall>t. window - 1 \<le> int t \<and> t < length y \<and>
           (\<exists>e. ols (window_at y window t) (window_at x window t) = Inl e) \<longrightarrow>
           eg_row r t = (nan, nan, nan, nan, nan, nan, nan, nan, 0)) \<and>
      (\<forall>t. window - 1 \<le> int t \<and> t < length y \<and>
           (\<exists>e. coint (window_at y window t) (window_at x window t) ''c'' 1 = Inl e) \<longrightarrow>
           eg_adf_stats r ! t = nan \<and> eg_p_values r ! t = nan \<and> eg_critical_1pct r ! t = nan \<and>
           eg_critical_5pct r ! t = nan \<and> eg_critical_10pct r ! t = nan \<and>
           is_cointegrated r ! t = 0) \<and>
      (\<forall>ols' coint' t.
           ols' (window_at y window t) (window_at x window t)
             = ols (window_at y window t) (window_at x window t) \<and>
           coint' (window_at y window t) (window_at x window t) ''c'' 1
             = coint (window_at y window t) (window_at x window t) ''c'' 1 \<longrightarrow>
           (\<exists>r'. compute_engle_granger ols' coint' y x window = Inr r' \<and>
                 eg_row r' t = eg_row r t))"
proof -
  obtain r where r: "compute_engle_granger ols coint y x window = Inr r"
    "\<forall>t. eg_row r t =
        (if window - 1 \<le> int t \<and> t < length y
         then eg_row (engle_granger_step ols coint y x window (int t) (eg_init (length y))) t
         else eg_row (eg_init (length y)) t)"
    using engle_granger_rows[OF assms] by blast
  have fail_ols: "eg_row r t = (nan, nan, nan, nan, nan, nan, nan, nan, 0)"
    if "window - 1 \<le> int t" "t < length y"
      "ols (window_at y window t) (window_at x window t) = Inl e" for t e
    using r(2)[rule_format, of t] that
    by (simp add: engle_granger_step_ols_raises eg_row_def eg_init_def)
  have fail_coint: "eg_adf_stats r ! t = nan \<and> eg_p_values r ! t = nan \<and>
      eg_critical_1pct r ! t = nan \<and> eg_critical_5pct r ! t = nan \<and>
      eg_critical_10pct r ! t = nan \<and> is_cointegrated r ! t = 0"
    if "window - 1 \<le> int t" "t < length y"
      "coint (window_at y window t) (window_at x window t) ''c'' 1 = Inl e" for t e
  proof -
    have "eg_row r t
        = eg_row (engle_granger_step ols coint y x window (int t) (eg_init (length y))) t"
      using r(2)[rule_format, of t] that by simp
    then show ?thesis
      using that(2,3)
        engle_granger_step_coint_raises[where coint = coint and ols = ols and t = t and y = y
          and x = x and window = window and e = e and st = "eg_init (length y)"]
      by (simp add: eg_row_def eg_init_def)
  qed
  have iso: "\<exists>r'. compute_engle_granger ols' coint' y x window = Inr r' \<and> eg_row r' t = eg_row r t"
    if "ols' (window_at y window t) (window_at x window t)
             = ols (window_at y window t) (window_at x window t)"
      "coint' (window_at y window t) (window_at x window t) ''c'' 1
             = coint (window_at y window t) (window_at x window t) ''c'' 1" for ols' coint' t
  proof -
    obtain r' where r': "compute_engle_granger ols' coint' y x window = Inr r'"
      "\<forall>t. eg_row r' t =
        (if window - 1 \<le> int t \<and> t < length y
         then eg_row (engle_granger_step ols' coint' y x window (int t) (eg_init (length y))) t
         else eg_row (eg_init (length y)) t)"
      using engle_granger_rows[OF assms, of ols' coint'] by blast
    have "eg_row r' t = eg_row r t"
      using r'(2)[rule_format, of t] r(2)[rule_format, of t] that
        engle_granger_step_cong[where ols' = ols' and ols = ols and coint' = coint' and coint = coint
          and t = t and y = y and x = x and window = window and st = "eg_init (length y)"]
      by simp
    then show ?thesis using r'(1) by blast
  qed
  show ?thesis using r(1) fail_ols fail_coint iso by blast
qed

text \<open>
  When the regression has returned its two parameters and the cointegration test then
  raises, the iteration has already stored the intercept, the hedge ratio and the
  spread of the window's last point; the rest of the row is untouched.
\<close>

lemma engle_granger_step_kept:
  assumes "t < length y" "t < length x"
    and "ols (window_at y window t) (window_at x window t) = Inr params" "2 \<le> length params"
    and "coint (window_at y window t) (window_at x window t) ''c'' 1 = Inl e"
  shows "eg_row (engle_granger_step ols coint y x window (int t) (eg_init (length y))) t =
     (params ! 1, params ! 0,
      f_sub (f_sub (Some (y ! t)) (params ! 0)) (f_mul (params ! 1) (Some (x ! t))),
      nan, nan, nan, nan, nan, 0)"
proof -
  have ne: "params \<noteq> []" using assms(4) by auto
  have g: "py_get params 0 = Inr (params ! 0)" "py_get params 1 = Inr (params ! 1)"
    "py_get y (int t) = Inr (y ! t)" "py_get x (int t) = Inr (x ! t)"
    using assms ne by (simp_all add: py_get_nonneg)
  show ?thesis
    using assms(1,3,5)
    by (simp add: engle_granger_step_def window_at_def[symmetric] attempt_def g py_set_nonneg
        eg_init_def eg_row_def Let_def)
qed

lemma engle_granger_kept:
  assumes "0 < window" "window - 1 \<le> int t" "t < length y" "t < length x"
    and "ols (window_at y window t) (window_at x window t) = Inr params" "2 \<le> length params"
    and "coint (window_at y window t) (window_at x window t) ''c'' 1 = Inl e"
    and "compute_engle_granger ols coint y x window = Inr r"
  shows "intercepts r ! t = params ! 0 \<and> hedge_ratios r ! t = params ! 1 \<and>
     spreads r ! t = f_sub (f_sub (Some (y ! t)) (params ! 0)) (f_mul (params ! 1) (Some (x ! t)))"
proof -
  obtain r' where r': "compute_engle_granger ols coint y x window = Inr r'"
    "eg_row r' t = eg_row (engle_granger_step ols coint y x window (int t) (eg_init (length y))) t"
    using engle_granger_row_at[OF assms(1-3), of ols coint x] by blast
  have "r' = r" using assms(8) r'(1) by simp
  then have "eg_row r t =
     (params ! 1, params ! 0,
      f_sub (f_sub (Some (y ! t)) (params ! 0)) (f_mul (params ! 1) (Some (x ! t))),
      nan, nan, nan, nan, nan, 0)"
    using r'(2) assms(3-7)
      engle_granger_step_kept[where ols = ols and coint = coint and t = t and y = y and x = x
        and window = window and params = params and e = e]
    by simp
  then show ?thesis by (simp add: eg_row_def)
qed

text \<open>
  Claim C3, amended. For a positive window the three rolling computations with a
  collaborator always return a frame. At a window where \<^verbatim>\<open>adfuller\<close> raises (rolling
  ADF), where \<^verbatim>\<open>coint_johansen\<close> raises (Johansen) or where the regression raises
  (Engle-Granger), the whole row is NaN and its flag 0. At a window where the
  Engle-Granger cointegration test raises, the statistic, the p-value and the critical
  values are NaN and the flag is 0; when the regression of that window had returned its
  two parameters, the intercept and the hedge ratio of the row are these parameters and
  the spread is \<open>y[t] - alpha - beta * x[t]\<close>: the regression columns are kept.
  Every row depends on the collaborators' answers for its own window only: a run with
  other collaborators that answer the same on the window of index \<open>t\<close> has the same row
  \<open>t\<close>, whatever happens on the other windows.
\<close>

theorem collaborator_failure_isolated:
  assumes "0 < window"
  shows
   "(\<exists>r. compute_rolling_adf adfuller series window maxlag regression = Inr r \<and>
      (\<forall>t. window - 1 \<le> int t \<and> t < length series \<and>
           (\<exists>e. adfuller (window_at series window t) maxlag regression = Inl e) \<longrightarrow>
           adf_row r t = (nan, nan, nan, nan, nan, 0)) \<and>
      (\<forall>adfuller' t.
           adfuller' (window_at series window t) maxlag regression
             = adfuller (window_at series window t) maxlag regression \<longrightarrow>
           (\<exists>r'. compute_rolling_adf adfuller' series window maxlag regression = Inr r' \<and>
                 adf_row r' t = adf_row r t))) \<and>
    (\<exists>r. compute_johansen coint_johansen data window det_order k_ar_diff = Inr r \<and>
      (\<forall>t. window - 1 \<le> int t \<and> t < length data \<and>
           (\<exists>e. coint_johansen (window_at data window t) det_order k_ar_diff = Inl e) \<longrightarrow>
           johansen_row r t = (nan, nan, nan, nan, nan, nan, nan)) \<and>
      (\<forall>coint_johansen' t.
           coint_johansen' (window_at data window t) det_order k_ar_diff
             = coint_johansen (window_at data window t) det_order k_ar_diff \<longrightarrow>
           (\<exists>r'. compute_johansen coint_johansen' data window det_order k_ar_diff = Inr r' \<and>
                 johansen_row r' t = johansen_row r t))) \<and>
    (\<exists>r. compute_engle_granger ols coint y x window = Inr r \<and>
      (\<forall>t. window - 1 \<le> int t \<and> t < length y \<and>
           (\<exists>e. ols (window_at y window t) (window_at x window t) = Inl e) \<longrightarrow>
           eg_row r t = (nan, nan, nan, nan, nan, nan, nan, nan, 0)) \<and>
      (\<forall>t. window - 1 \<le> int t \<and> t < length y \<and>
           (\<exists>e. coint (window_at y window t) (window_at x window t) ''c'' 1 = Inl e) \<longrightarrow>
           eg_adf_stats r ! t = nan \<and> eg_p_values r ! t = nan \<and> eg_critical_1pct r ! t = nan \<and>
           eg_critical_5pct r ! t = nan \<and> eg_critical_10pct r ! t = nan \<and>
           is_cointegrated r ! t = 0) \<and>
      (\<forall>t params. window - 1 \<le> int t \<and> t < length y \<and> t < length x \<and>
           ols (window_at y window t) (window_at x window t) = Inr params \<and> 2 \<le> length params \<and>
           (\<exists>e. coint (window_at y window t) (window_at x window t) ''c'' 1 = Inl e) \<longrightarrow>
           intercepts r ! t = params ! 0 \<and> hedge_ratios r ! t = params ! 1 \<and>
           spreads r ! t
             = f_sub (f_sub (Some (y ! t)) (params ! 0)) (f_mul (params ! 1) (Some (x ! t)))) \<and>
      (\<forall>ols' coint' t.
           ols' (window_at y window t) (window_at x window t)
             = ols (window_at y window t) (window_at x window t) \<and>
           coint' (window_at y window t) (window_at x window t) ''c'' 1
             = coint (window_at y window t) (window_at x window t) ''c'' 1 \<longrightarrow>
           (\<exists>r'. compute_engle_granger ols' coint' y x window = Inr r' \<and>
                 eg_row r' t = eg_row r t)))"
proof -
  obtain r where r: "compute_engle_granger ols coint y x window = Inr r"
    and fail_ols: "\<forall>t. window - 1 \<le> int t \<and> t < length y \<and>
           (\<exists>e. ols (window_at y window t) (window_at x window t) = Inl e) \<longrightarrow>
           eg_row r t = (nan, nan, nan, nan, nan, nan, nan, nan, 0)"
    and fail_coint: "\<forall>t. window - 1 \<le> int t \<and> t < length y \<and>
           (\<exists>e. coint (window_at y window t) (window_at x window t) ''c'' 1 = Inl e) \<longrightarrow>
           eg_adf_stats r ! t = nan \<and> eg_p_values r ! t = nan \<and> eg_critical_1pct r ! t = nan \<and>
           eg_critical_5pct r ! t = nan \<and> eg_critical_10pct r ! t = nan \<and>
           is_cointegrated r ! t = 0"
    and iso: "\<forall>ols' coint' t.
           ols' (window_at y window t) (window_at x window t)
             = ols (window_at y window t) (window_at x window t) \<and>
           coint' (window_at y window t) (window_at x window t) ''c'' 1
             = coint (window_at y window t) (window_at x window t) ''c'' 1 \<longrightarrow>
           (\<exists>r'. compute_engle_granger ols' coint' y x window = Inr r' \<and>
                 eg_row r' t = eg_row r t)"
    using engle_granger_isolated[OF assms, of ols coint y x] by blast
  have kept: "\<forall>t params. window - 1 \<le> int t \<and> t < length y \<and> t < length x \<and>
           ols (window_at y window t) (window_at x window t) = Inr params \<and> 2 \<le> length params \<and>
           (\<exists>e. coint (window_at y window t) (window_at x window t) ''c'' 1 = Inl e) \<longrightarrow>
           intercepts r ! t = params ! 0 \<and> hedge_ratios r ! t = params ! 1 \<and>
           spreads r ! t
             = f_sub (f_sub (Some (y ! t)) (params ! 0)) (f_mul (params ! 1) (Some (x ! t)))"
  proof (intro allI impI, elim conjE exE)
    fix t params e
    assume h: "window - 1 \<le> int t" "t < length y" "t < length x"
      "ols (window_at y window t) (window_at x window t) = Inr params" "2 \<le> length params"
      "coint (window_at y window t) (window_at x window t) ''c'' 1 = Inl e"
    show "intercepts r ! t = params ! 0 \<and> hedge_ratios r ! t = params ! 1 \<and>
           spreads r ! t
             = f_sub (f_sub (Some (y ! t)) (params ! 0)) (f_mul (params ! 1) (Some (x ! t)))"
      using h r assms
        engle_granger_kept[where ols = ols and coint = coint and t = t and y = y and x = x
          and window = window and params = params and e = e and r = r]
      by simp
  qed
  have eg: "\<exists>r. compute_engle_granger ols coint y x window = Inr r \<and>
      (\<forall>t. window - 1 \<le> int t \<and> t < length y \<and>
           (\<exists>e. ols (window_at y window t) (window_at x window t) = Inl e) \<longrightarrow>
           eg_row r t = (nan, nan, nan, nan, nan, nan, nan, nan, 0)) \<and>
      (\<forall>t. window - 1 \<le> int t \<and> t < length y \<and>
           (\<exists>e. coint (window_at y window t) (window_at x window t) ''c'' 1 = Inl e) \<longrightarrow>
           eg_adf_stats r ! t = nan \<and> eg_p_values r ! t = nan \<and> eg_critical_1pct r ! t = nan \<and>
           eg_critical_5pct r ! t = nan \<and> eg_critical_10pct r ! t = nan \<and>
           is_cointegrated r ! t = 0) \<and>
      (\<forall>t params. window - 1 \<le> int t \<and> t < length y \<and> t < length x \<and>
           ols (window_at y window t) (window_at x window t) = Inr params \<and> 2 \<le> length params \<and>
           (\<exists>e. coint (window_at y window t) (window_at x window t) ''c'' 1 = Inl e) \<longrightarrow>
           intercepts r ! t = params ! 0 \<and> hedge_ratios r ! t = params ! 1 \<and>
           spreads r ! t
             = f_sub (f_sub (Some (y ! t)) (params ! 0)) (f_mul (params ! 1) (Some (x ! t)))) \<and>
      (\<forall>ols' coint' t.
           ols' (window_at y window t) (window_at x window t)
             = ols (window_at y window t) (window_at x window t) \<and>
           coint' (window_at y window t) (window_at x window t) ''c'' 1
             = coint (window_at y window t) (window_at x window t) ''c'' 1 \<longrightarrow>
           (\<exists>r'. compute_engle_granger ols' coint' y x window = Inr r' \<and>
                 eg_row r' t = eg_row r t))"
    by (rule exI[of _ r]) (intro conjI r fail_ols fail_coint kept iso)
  show ?thesis
    by (intro conjI rolling_adf_isolated[OF assms] johansen_isolated[OF assms] eg)
qed

theorem collaborator_failure_isolated_witness:
  "(\<exists>r. compute_rolling_adf adfuller_stub [1, 1, 1, 2, 3] 3 1 ''c'' = Inr r \<and>
        adf_row r 2 = (nan, nan, nan, nan, nan, 0) \<and>
        (\<exists>r'. compute_rolling_adf
                (\<lambda>wd m rg. if wd = [1, 1, 2] then adfuller_stub wd m rg else Inl (Raised ''down''))
                [1, 1, 1, 2, 3] 3 1 ''c'' = Inr r' \<and>
              adf_row r' 3 = adf_row r 3)) \<and>
   (\<exists>r. compute_johansen johansen_fixed [[1, 1], [1, 1], [1, 1], [2, 2]] 3 0 1 = Inr r \<and>
        johansen_row r 2 = (nan, nan, nan, nan, nan, nan, nan)) \<and>
   (\<exists>r. compute_engle_granger ols_closed_form coint_raises [1, 2, 4] [1, 2, 3] 3 = Inr r \<and>
        eg_adf_stats r ! 2 = nan \<and> eg_p_values r ! 2 = nan \<and> is_cointegrated r ! 2 = 0 \<and>
        intercepts r ! 2 = Some (- (2 / 3)) \<and> hedge_ratios r ! 2 = Some (3 / 2) \<and>
        spreads r ! 2 = Some (1 / 6)) \<and>
   (\<exists>r. compute_engle_granger ols_closed_form coint_raises [1, 2, 4] [1, 1, 1] 3 = Inr r \<and>
        eg_row r 2 = (nan, nan, nan, nan, nan, nan, nan, nan, 0))"
proof -
  have w: "(0::int) < 3" by simp
  define down :: adfuller_fn where
    "down = (\<lambda>wd m rg. if wd = [1, 1, 2] then adfuller_stub wd m rg else Inl (Raised ''down''))"
  note T = collaborator_failure_isolated[where window = 3 and adfuller = adfuller_stub
      and series = "[1, 1, 1, 2, 3]" and maxlag = 1 and regression = "''c''"
      and coint_johansen = johansen_fixed and data = "[[1, 1], [1, 1], [1, 1], [2, 2]]"
      and det_order = 0 and k_ar_diff = 1 and ols = ols_closed_form and coint = coint_raises
      and y = "[1, 2, 4]" and x = "[1, 2, 3]", OF w]
  note T2 = collaborator_failure_isolated[where window = 3 and adfuller = adfuller_stub
      and series = "[1, 1, 1, 2, 3]" and maxlag = 1 and regression = "''c''"
      and coint_johansen = johansen_fixed and data = "[[1, 1], [1, 1], [1, 1], [2, 2]]"
      and det_order = 0 and k_ar_diff = 1 and ols = ols_closed_form and coint = coint_raises
      and y = "[1, 2, 4]" and x = "[1, 1, 1]", OF w]
  \<comment> \<open>rolling ADF\<close>
  have a2: "adfuller_stub (window_at [1, 1, 1, 2, 3] 3 2) 1 ''c'' = Inl (Raised ''constant series'')"
    by (simp add: adfuller_stub_def window_at_def py_slice_def)
  have a3: "down (window_at [1, 1, 1, 2, 3] 3 3) 1 ''c'' = adfuller_stub (window_at [1, 1, 1, 2, 3] 3 3) 1 ''c''"
    by (simp add: down_def window_at_def py_slice_def)
  from T[THEN conjunct1] obtain r where r:
    "compute_rolling_adf adfuller_stub [1, 1, 1, 2, 3] 3 1 ''c'' = Inr r"
    "\<forall>t. 3 - 1 \<le> int t \<and> t < length [1, 1, 1, 2, 3 :: real] \<and>
           (\<exists>e. adfuller_stub (window_at [1, 1, 1, 2, 3] 3 t) 1 ''c'' = Inl e) \<longrightarrow>
           adf_row r t = (nan, nan, nan, nan, nan, 0)"
    "\<forall>adfuller' t.
           adfuller' (window_at [1, 1, 1, 2, 3] 3 t) 1 ''c''
             = adfuller_stub (window_at [1, 1, 1, 2, 3] 3 t) 1 ''c'' \<longrightarrow>
           (\<exists>r'. compute_rolling_adf adfuller' [1, 1, 1, 2, 3] 3 1 ''c'' = Inr r' \<and>
                 adf_row r' t = adf_row r t)"
    by blast
  have r2: "adf_row r 2 = (nan, nan, nan, nan, nan, 0)"
    using r(2)[rule_format, of 2] a2 by simp
  have r3: "\<exists>r'. compute_rolling_adf down [1, 1, 1, 2, 3] 3 1 ''c'' = Inr r' \<and> adf_row r' 3 = adf_row r 3"
    using r(3)[rule_format, of down 3] a3 by simp
  have p1: "\<exists>r. compute_rolling_adf adfuller_stub [1, 1, 1, 2, 3] 3 1 ''c'' = Inr r \<and>
        adf_row r 2 = (nan, nan, nan, nan, nan, 0) \<and>
        (\<exists>r'. compute_rolling_adf down [1, 1, 1, 2, 3] 3 1 ''c'' = Inr r' \<and>
              adf_row r' 3 = adf_row r 3)"
    using r(1) r2 r3 by blast
  \<comment> \<open>Johansen\<close>
  have j2: "johansen_fixed (window_at [[1, 1], [1, 1], [1, 1], [2, 2]] 3 2) 0 1
      = Inl (Raised ''singular matrix'')"
    by (simp add: johansen_fixed_def window_at_def py_slice_def)
  from T[THEN conjunct2, THEN conjunct1] obtain s where s:
    "compute_johansen johansen_fixed [[1, 1], [1, 1], [1, 1], [2, 2]] 3 0 1 = Inr s"
    "\<forall>t. 3 - 1 \<le> int t \<and> t < length [[1, 1], [1, 1], [1, 1], [2, 2 :: real]] \<and>
           (\<exists>e. johansen_fixed (window_at [[1, 1], [1, 1], [1, 1], [2, 2]] 3 t) 0 1 = Inl e) \<longrightarrow>
           johansen_row s t = (nan, nan, nan, nan, nan, nan, nan)"
    by blast
  have p2: "\<exists>r. compute_johansen johansen_fixed [[1, 1], [1, 1], [1, 1], [2, 2]] 3 0 1 = Inr r \<and>
        johansen_row r 2 = (nan, nan, nan, nan, nan, nan, nan)"
    using s(1) s(2)[rule_format, of 2] j2 by simp
  \<comment> \<open>Engle-Granger, the test raises after the regression has returned\<close>
  have wy: "window_at [1, 2, 4 :: real] 3 2 = [1, 2, 4]"
    and wx: "window_at [1, 2, 3 :: real] 3 2 = [1, 2, 3]"
    by (simp_all add: window_at_def py_slice_def)
  have e2: "coint_raises (window_at [1, 2, 4] 3 2) (window_at [1, 2, 3] 3 2) ''c'' 1
      = Inl (Raised ''maxlag must be less than nobs/2 - 1 - ntrend'')"
    by (simp add: coint_raises_def)
  have o1: "ols_closed_form (window_at [1, 2, 4] 3 2) (window_at [1, 2, 3] 3 2)
      = Inr [Some (- (2 / 3)), Some (3 / 2)]"
    unfolding wy wx by (simp add: ols_closed_form_def Let_def)
  from T[THEN conjunct2, THEN conjunct2] obtain u where u:
    "compute_engle_granger ols_closed_form coint_raises [1, 2, 4] [1, 2, 3] 3 = Inr u"
    "\<forall>t. 3 - 1 \<le> int t \<and> t < length [1, 2, 4 :: real] \<and>
           (\<exists>e. coint_raises (window_at [1, 2, 4] 3 t) (window_at [1, 2, 3] 3 t) ''c'' 1 = Inl e) \<longrightarrow>
           eg_adf_stats u ! t = nan \<and> eg_p_values u ! t = nan \<and> eg_critical_1pct u ! t = nan \<and>
           eg_critical_5pct u ! t = nan \<and> eg_critical_10pct u ! t = nan \<and>
           is_cointegrated u ! t = 0"
    "\<forall>t params. 3 - 1 \<le> int t \<and> t < length [1, 2, 4 :: real] \<and> t < length [1, 2, 3 :: real] \<and>
           ols_closed_form (window_at [1, 2, 4] 3 t) (window_at [1, 2, 3] 3 t) = Inr params \<and>
           2 \<le> length params \<and>
           (\<exists>e. coint_raises (window_at [1, 2, 4] 3 t) (window_at [1, 2, 3] 3 t) ''c'' 1 = Inl e) \<longrightarrow>
           intercepts u ! t = params ! 0 \<and> hedge_ratios u ! t = params ! 1 \<and>
           spreads u ! t
             = f_sub (f_sub (Some ([1, 2, 4] ! t)) (params ! 0)) (f_mul (params ! 1) (Some ([1, 2, 3] ! t)))"
    by blast
  have k: "intercepts u ! 2 = Some (- (2 / 3)) \<and> hedge_ratios u ! 2 = Some (3 / 2) \<and>
        spreads u ! 2 = Some (1 / 6)"
    using u(3)[rule_format, of 2 "[Some (- (2 / 3)), Some (3 / 2)]"] o1 e2
    by (simp add: f_sub_def f_mul_def)
  have p3: "\<exists>r. compute_engle_granger ols_closed_form coint_raises [1, 2, 4] [1, 2, 3] 3 = Inr r \<and>
        eg_adf_stats r ! 2 = nan \<and> eg_p_values r ! 2 = nan \<and> is_cointegrated r ! 2 = 0 \<and>
        intercepts r ! 2 = Some (- (2 / 3)) \<and> hedge_ratios r ! 2 = Some (3 / 2) \<and>
        spreads r ! 2 = Some (1 / 6)"
    using u(1) u(2)[rule_format, of 2] e2 k by simp
  \<comment> \<open>Engle-Granger, the regression raises\<close>
  have o2: "ols_closed_form (window_at [1, 2, 4] 3 2) (window_at [1, 1, 1] 3 2) = Inl (Raised ''singular'')"
    by (simp add: ols_closed_form_def window_at_def py_slice_def Let_def)
  from T2[THEN conjunct2, THEN conjunct2] obtain v where v:
    "compute_engle_granger ols_closed_form coint_raises [1, 2, 4] [1, 1, 1] 3 = Inr v"
    "\<forall>t. 3 - 1 \<le> int t \<and> t < length [1, 2, 4 :: real] \<and>
           (\<exists>e. ols_closed_form (window_at [1, 2, 4] 3 t) (window_at [1, 1, 1] 3 t) = Inl e) \<longrightarrow>
           eg_row v t = (nan, nan, nan, nan, nan, nan, nan, nan, 0)"
    by blast
  have p4: "\<exists>r. compute_engle_granger ols_closed_form coint_raises [1, 2, 4] [1, 1, 1] 3 = Inr r \<and>
        eg_row r 2 = (nan, nan, nan, nan, nan, nan, nan, nan, 0)"
    using v(1) v(2)[rule_format, of 2] o2 by simp
  show ?thesis using p1 p2 p3 p4 unfolding down_def by blast
qed

section \<open>The flag columns\<close>














section \<open>A window longer than the series\<close>

lemma hl_example_short:
  "compute_half_life_ar1 [1, 2] 3 =
     Inr \<lparr>half_lives = [nan, nan], ar1_coefs = [nan, nan], is_mean_reverting = [0, 0]\<rparr>"
  by (simp add: compute_half_life_ar1_def for_range_empty half_life_init_def numeral_2_eq_2)

lemma hl_example_empty:
  "compute_half_life_ar1 [] 3 =
     Inr \<lparr>half_lives = [], ar1_coefs = [], is_mean_reverting = []\<rparr>"
  by (simp add: compute_half_life_ar1_def for_range_empty half_life_init_def)

lemma frac_diff_example_short: "frac_diff_manual [5] 1 (1 / 100000) = Inr [nan]"
  by (simp add: frac_diff_manual_def ffd_weights_d1 for_range_empty)

lemma frac_diff_example_empty: "frac_diff_manual [] 1 (1 / 100000) = Inr []"
  by (simp add: frac_diff_manual_def ffd_weights_d1 for_range_empty)

text \<open>
  Claim C4 as stated fails: no operation checks its input shape. With a window of 3 on a
  series of two values, and on the empty series, \<^verbatim>\<open>compute_half_life_ar1\<close> returns a
  frame (all NaN, flags 0; empty for the empty series) and raises nothing; so does the
  filter, whose window for \<open>d = 1\<close> is 2, on a series of one value and on the empty one.
\<close>

theorem input_shape_counterexample:
  "compute_half_life_ar1 [1, 2] 3 =
     Inr \<lparr>half_lives = [nan, nan], ar1_coefs = [nan, nan], is_mean_reverting = [0, 0]\<rparr> \<and>
   compute_half_life_ar1 [] 3 = Inr \<lparr>half_lives = [], ar1_coefs = [], is_mean_reverting = []\<rparr> \<and>
   frac_diff_manual [5] 1 (1 / 100000) = Inr [nan] \<and>
   frac_diff_manual [] 1 (1 / 100000) = Inr []"
  using hl_example_short hl_example_empty frac_diff_example_short frac_diff_example_empty
  by simp

text \<open>
  Claim C4, amended. When the window exceeds the length of the series (which includes
  every empty series with a positive window), the loop body never runs: each rolling
  operation returns, without an error, the frame it started from, as long as the input
  and with every value NaN and every flag 0; the filter returns an all-NaN array when
  the series is shorter than the weight series.
\<close>

theorem short_series_all_sentinel:
  "(int (length series) < window \<longrightarrow>
      compute_half_life_ar1 series window = Inr (half_life_init (length series)) \<and>
      compute_rolling_adf adfuller series window maxlag regression = Inr (adf_init (length series))) \<and>
   (int (length y) < window \<longrightarrow>
      compute_engle_granger ols coint y x window = Inr (eg_init (length y))) \<and>
   (int (length data) < window \<longrightarrow>
      compute_johansen coint_johansen data window det_order k_ar_diff
        = Inr (johansen_init (length data))) \<and>
   (length series < length (compute_ffd_weights d threshold 10000) \<longrightarrow>
      frac_diff_manual series d threshold = Inr (replicate (length series) nan))"
proof -
  have "length series < length (compute_ffd_weights d threshold 10000) \<longrightarrow>
      frac_diff_manual series d threshold = Inr (replicate (length series) nan)"
  proof
    assume "length series < length (compute_ffd_weights d threshold 10000)"
    then have "int (length series) \<le> int (length (compute_ffd_weights d threshold 10000)) - 1"
      by linarith
    then show "frac_diff_manual series d threshold = Inr (replicate (length series) nan)"
      by (simp add: frac_diff_manual_def Let_def for_range_empty)
  qed
  then show ?thesis
    by (simp add: compute_half_life_ar1_def compute_rolling_adf_def compute_engle_granger_def
        compute_johansen_def Let_def for_range_empty)
qed

theorem short_series_all_sentinel_witness:
  "int (length [1, 2 :: real]) < 3 \<and>
   compute_half_life_ar1 [1, 2] 3 = Inr (half_life_init 2) \<and>
   half_life_init 2 = \<lparr>half_lives = [nan, nan], ar1_coefs = [nan, nan], is_mean_reverting = [0, 0]\<rparr> \<and>
   compute_rolling_adf adfuller_stub [1, 2] 3 1 ''c'' = Inr (adf_init 2) \<and>
   compute_engle_granger ols_closed_form coint_raises [1, 2] [1, 2] 3 = Inr (eg_init 2) \<and>
   compute_johansen johansen_fixed [[1, 1], [2, 2]] 3 0 1 = Inr (johansen_init 2) \<and>
   length [5 :: real] < length (compute_ffd_weights 1 (1 / 100000) 10000) \<and>
   frac_diff_manual [5] 1 (1 / 100000) = Inr [nan]"
proof -
  note T = short_series_all_sentinel[where series = "[1, 2]" and window = 3
      and adfuller = adfuller_stub and maxlag = 1 and regression = "''c''"
      and ols = ols_closed_form and coint = coint_raises and y = "[1, 2]" and x = "[1, 2]"
      and coint_johansen = johansen_fixed and data = "[[1, 1], [2, 2]]" and det_order = 0
      and k_ar_diff = 1]
  note T5 = short_series_all_sentinel[where series = "[5]" and d = 1 and threshold = "1 / 100000",
      THEN conjunct2, THEN conjunct2, THEN conjunct2]
  have l: "length [1, 2 :: real] = 2" "length [[1, 1], [2, 2 :: real]] = 2" "length [5 :: real] = 1"
    by simp_all
  have h: "int 2 < (3::int)" by simp
  have h5: "1 < length (compute_ffd_weights 1 (1 / 100000) 10000)" by (simp add: ffd_weights_d1)
  have i: "half_life_init 2 = \<lparr>half_lives = [nan, nan], ar1_coefs = [nan, nan], is_mean_reverting = [0, 0]\<rparr>"
    by (simp add: half_life_init_def numeral_2_eq_2)
  have r1: "replicate 1 (nan :: float64) = [nan]" by simp
  from T[unfolded l] T5[unfolded l r1] h h5 i show ?thesis unfolding l by blast
qed

end
